theory Spec2Isabelle
  imports Main "HOL-Library.Sublist" "HOL-Library.Multiset"
begin

section \<open>Data model of \<^verbatim>\<open>src/sqlite.ts\<close>\<close>

text \<open>
  The store keeps two SQLite tables. A table is the list of its rows in insertion order;
  a \<^verbatim>\<open>TEXT\<close> column that may be \<^verbatim>\<open>NULL\<close> is a \<open>string option\<close>. The
  \<^verbatim>\<open>AUTOINCREMENT\<close> key of \<^verbatim>\<open>logs\<close> needs the largest key ever handed out, which SQLite
  keeps in \<^verbatim>\<open>sqlite_sequence\<close>: the field \<open>logs_seq\<close>. Row ids are unbounded naturals
  (the 64-bit limit of SQLite is not modelled).
\<close>

datatype error =
    NotConnected
  | ConstraintPrimaryKey
  | ConstraintForeignKey
  | JsonSyntaxError

record MatchRow =
  id_m :: string
  gameName :: string
  state :: "string option"
  initialState :: "string option"
  metadata :: "string option"
  createdAt :: int
  updatedAt :: int

record LogRow =
  id_l :: nat
  matchId :: string
  logEntry :: string

record database =
  matches :: "MatchRow list"
  logs :: "LogRow list"
  logs_seq :: nat

text \<open>
  \<^verbatim>\<open>private db: Database | null\<close>: the handle is open or not (\<open>db_open\<close>), and the
  database file it points to (\<open>db_file\<close>) outlives the handle.
\<close>

record SQLiteStore =
  db_open :: bool
  db_file :: database

text \<open>
  The payloads of boardgame.io. The store reads \<^verbatim>\<open>_stateID\<close> of a state, and
  \<^verbatim>\<open>gameName\<close> and \<^verbatim>\<open>gameover\<close> of the metadata; everything else is opaque (\<open>'j\<close>).
  An optional property is an \<open>option\<close>, \<open>None\<close> being \<^verbatim>\<open>undefined\<close>.
\<close>

record 'j State =
  stateID :: int
  payload :: 'j

record 'j MatchData =
  md_gameName :: "string option"
  gameover :: "'j option"
  md_rest :: 'j

text \<open>
  \<^verbatim>\<open>JSON.stringify\<close> and \<^verbatim>\<open>JSON.parse\<close> belong to the language, not to the repository:
  they are parameters, one pair for each payload type. \<open>parse\<close> returns \<open>None\<close> where
  \<^verbatim>\<open>JSON.parse\<close> throws or yields a value that is not of the expected type.
\<close>

record 'j JSON =
  stringify_State :: "'j State \<Rightarrow> string"
  parse_State :: "string \<Rightarrow> 'j State option"
  stringify_MatchData :: "'j MatchData \<Rightarrow> string"
  parse_MatchData :: "string \<Rightarrow> 'j MatchData option"
  stringify_LogEntry :: "'j \<Rightarrow> string"
  parse_LogEntry :: "string \<Rightarrow> 'j option"

record 'j CreateMatchOpts =
  cm_initialState :: "'j State"
  cm_metadata :: "'j MatchData"

text \<open>\<^verbatim>\<open>StorageAPI.FetchOpts\<close>: four optional booleans.\<close>

record FetchOpts =
  fo_state :: "bool option"
  fo_metadata :: "bool option"
  fo_initialState :: "bool option"
  fo_log :: "bool option"

text \<open>
  \<^verbatim>\<open>Partial<StorageAPI.FetchFields>\<close>: reading a property that was never assigned, or
  that was assigned \<^verbatim>\<open>undefined\<close>, yields \<^verbatim>\<open>undefined\<close>: \<open>None\<close>.
\<close>

record 'j FetchFields =
  ff_state :: "'j State option"
  ff_metadata :: "'j MatchData option"
  ff_initialState :: "'j State option"
  ff_log :: "'j list option"

record ListMatchesWhere =
  isGameover :: "bool option"
  updatedBefore :: "int option"
  updatedAfter :: "int option"

record ListMatchesOpts =
  lm_gameName :: "string option"
  lm_where :: "ListMatchesWhere option"

section \<open>JavaScript truthiness\<close>

definition truthy_bool :: "bool option \<Rightarrow> bool" where
  "truthy_bool b = (b = Some True)"

definition truthy_text :: "string option \<Rightarrow> bool" where
  "truthy_text t = (case t of None \<Rightarrow> False | Some s \<Rightarrow> s \<noteq> [])"

section \<open>The SQL statements\<close>

text \<open>\<^verbatim>\<open>INSERT INTO matches ... VALUES (...)\<close>; \<^verbatim>\<open>id\<close> is the primary key.\<close>

definition sql_insert_match :: "MatchRow \<Rightarrow> database \<Rightarrow> error + database" where
  "sql_insert_match row d =
     (if id_m row \<in> set (map id_m (matches d)) then Inl ConstraintPrimaryKey
      else Inr (d\<lparr>matches := matches d @ [row]\<rparr>))"

text \<open>\<^verbatim>\<open>SELECT * FROM matches WHERE id = ?\<close> with \<^verbatim>\<open>.get\<close>: the first row, if any.\<close>

definition sql_select_match :: "string \<Rightarrow> database \<Rightarrow> MatchRow option" where
  "sql_select_match i d = find (\<lambda>r. id_m r = i) (matches d)"

text \<open>\<^verbatim>\<open>SELECT logEntry FROM logs WHERE matchId = ? ORDER BY id ASC\<close>.\<close>

definition sql_select_logs :: "string \<Rightarrow> database \<Rightarrow> string list" where
  "sql_select_logs i d = map logEntry (sort_key id_l (filter (\<lambda>l. matchId l = i) (logs d)))"

text \<open>
  \<^verbatim>\<open>UPDATE matches SET state = ?, updatedAt = ? WHERE id = ?\<close>; the first component
  is the number of rows changed (\<^verbatim>\<open>RunResult.changes\<close>).
\<close>

definition sql_update_state :: "string \<Rightarrow> int \<Rightarrow> string \<Rightarrow> database \<Rightarrow> nat \<times> database" where
  "sql_update_state text now i d =
     (length (filter (\<lambda>r. id_m r = i) (matches d)),
      d\<lparr>matches := map (\<lambda>r. if id_m r = i then r\<lparr>state := Some text, updatedAt := now\<rparr> else r)
                        (matches d)\<rparr>)"

text \<open>\<^verbatim>\<open>UPDATE matches SET metadata = ?, updatedAt = ? WHERE id = ?\<close>.\<close>

definition sql_update_metadata :: "string \<Rightarrow> int \<Rightarrow> string \<Rightarrow> database \<Rightarrow> nat \<times> database" where
  "sql_update_metadata text now i d =
     (length (filter (\<lambda>r. id_m r = i) (matches d)),
      d\<lparr>matches := map (\<lambda>r. if id_m r = i then r\<lparr>metadata := Some text, updatedAt := now\<rparr> else r)
                        (matches d)\<rparr>)"

text \<open>
  \<^verbatim>\<open>INSERT INTO logs (matchId, logEntry) VALUES (?, ?)\<close>. Foreign keys are enforced
  (\<^verbatim>\<open>PRAGMA foreign_keys = ON\<close>), so the owning match must exist. The new key is one more
  than the largest key that ever existed in the table (\<^verbatim>\<open>AUTOINCREMENT\<close>).
\<close>

definition next_log_id :: "database \<Rightarrow> nat" where
  "next_log_id d = Suc (fold max (map id_l (logs d)) (logs_seq d))"

definition sql_insert_log :: "string \<Rightarrow> string \<Rightarrow> database \<Rightarrow> error + database" where
  "sql_insert_log i text d =
     (if i \<in> set (map id_m (matches d))
      then Inr (d\<lparr>logs := logs d @ [\<lparr>id_l = next_log_id d, matchId = i, logEntry = text\<rparr>],
                  logs_seq := next_log_id d\<rparr>)
      else Inl ConstraintForeignKey)"

text \<open>
  \<^verbatim>\<open>DELETE FROM matches WHERE id = ?\<close>. Deleting a parent row deletes its log rows
  (\<^verbatim>\<open>ON DELETE CASCADE\<close>); where no parent row is deleted nothing cascades.
\<close>

definition sql_delete_match :: "string \<Rightarrow> database \<Rightarrow> nat \<times> database" where
  "sql_delete_match i d =
     (length (filter (\<lambda>r. id_m r = i) (matches d)),
      if i \<in> set (map id_m (matches d))
      then d\<lparr>matches := filter (\<lambda>r. id_m r \<noteq> i) (matches d),
             logs := filter (\<lambda>l. matchId l \<noteq> i) (logs d)\<rparr>
      else d)"

text \<open>
  \<^verbatim>\<open>db.transaction(fn)()\<close>: the body's writes are committed together, or, when the body
  throws, rolled back before the exception is passed on.
\<close>

definition transaction :: "(database \<Rightarrow> error + database) \<Rightarrow> database \<Rightarrow> error option \<times> database" where
  "transaction body d = (case body d of Inl e \<Rightarrow> (Some e, d) | Inr d' \<Rightarrow> (None, d'))"

section \<open>The operations of \<^verbatim>\<open>SQLiteStore\<close>\<close>

text \<open>
  An operation that writes returns the exception it throws, if any, and the store after
  it. A read returns its result or the exception. \<^verbatim>\<open>Date.now()\<close> is the argument \<open>now\<close>.
\<close>

definition connect :: "SQLiteStore \<Rightarrow> SQLiteStore" where
  "connect s = s\<lparr>db_open := True\<rparr>"

definition close :: "SQLiteStore \<Rightarrow> SQLiteStore" where
  "close s = (if db_open s then s\<lparr>db_open := False\<rparr> else s)"

definition createMatch ::
  "'j JSON \<Rightarrow> int \<Rightarrow> string \<Rightarrow> 'j CreateMatchOpts \<Rightarrow> SQLiteStore \<Rightarrow> error option \<times> SQLiteStore" where
  "createMatch J now i opts s =
     (if \<not> db_open s then (Some NotConnected, s)
      else
        (case sql_insert_match
                \<lparr>id_m = i,
                 gameName = (case md_gameName (cm_metadata opts) of None \<Rightarrow> [] | Some g \<Rightarrow> g),
                 state = Some (stringify_State J (cm_initialState opts)),
                 initialState = Some (stringify_State J (cm_initialState opts)),
                 metadata = Some (stringify_MatchData J (cm_metadata opts)),
                 createdAt = now,
                 updatedAt = now\<rparr>
                (db_file s) of
           Inl e \<Rightarrow> (Some e, s)
         | Inr d \<Rightarrow> (None, s\<lparr>db_file := d\<rparr>)))"

text \<open>\<^verbatim>\<open>col ? JSON.parse(col) : undefined\<close>\<close>

definition parse_column :: "(string \<Rightarrow> 'a option) \<Rightarrow> string option \<Rightarrow> error + 'a option" where
  "parse_column parse col =
     (case col of
        None \<Rightarrow> Inr None
      | Some t \<Rightarrow>
          if t = [] then Inr None
          else (case parse t of None \<Rightarrow> Inl JsonSyntaxError | Some v \<Rightarrow> Inr (Some v)))"

text \<open>\<^verbatim>\<open>logs.map((row) => JSON.parse(row.logEntry))\<close>\<close>

fun parse_rows :: "(string \<Rightarrow> 'a option) \<Rightarrow> string list \<Rightarrow> error + 'a list" where
  "parse_rows parse [] = Inr []"
| "parse_rows parse (t # ts) =
     (case parse t of
        None \<Rightarrow> Inl JsonSyntaxError
      | Some v \<Rightarrow> (case parse_rows parse ts of Inl e \<Rightarrow> Inl e | Inr vs \<Rightarrow> Inr (v # vs)))"

definition empty_result :: "'j FetchFields" where
  "empty_result = \<lparr>ff_state = None, ff_metadata = None, ff_initialState = None, ff_log = None\<rparr>"

definition fetch :: "'j JSON \<Rightarrow> string \<Rightarrow> FetchOpts \<Rightarrow> SQLiteStore \<Rightarrow> error + 'j FetchFields" where
  "fetch J matchID opts s =
     (if \<not> db_open s then Inl NotConnected
      else
        (case sql_select_match matchID (db_file s) of
           None \<Rightarrow> Inr empty_result
         | Some match \<Rightarrow>
            (case (if truthy_bool (fo_state opts)
                   then parse_column (parse_State J) (state match) else Inr None) of
               Inl e \<Rightarrow> Inl e
             | Inr st \<Rightarrow>
            (case (if truthy_bool (fo_metadata opts)
                   then parse_column (parse_MatchData J) (metadata match) else Inr None) of
               Inl e \<Rightarrow> Inl e
             | Inr md \<Rightarrow>
            (case (if truthy_bool (fo_initialState opts)
                   then parse_column (parse_State J) (initialState match) else Inr None) of
               Inl e \<Rightarrow> Inl e
             | Inr ini \<Rightarrow>
            (case (if truthy_bool (fo_log opts)
                   then (case parse_rows (parse_LogEntry J) (sql_select_logs matchID (db_file s)) of
                           Inl e \<Rightarrow> Inl e | Inr es \<Rightarrow> Inr (Some es))
                   else Inr None) of
               Inl e \<Rightarrow> Inl e
             | Inr lg \<Rightarrow>
                 Inr \<lparr>ff_state = st, ff_metadata = md, ff_initialState = ini, ff_log = lg\<rparr>))))))"

text \<open>
  Lines 157 to 167 of \<^verbatim>\<open>setState\<close>, the check for a stale state:
  \<open>Inr True\<close> where the method returns early.
\<close>

definition stale_check :: "'j JSON \<Rightarrow> string \<Rightarrow> 'j State \<Rightarrow> database \<Rightarrow> error + bool" where
  "stale_check J i st d =
     (case sql_select_match i d of
        None \<Rightarrow> Inr False
      | Some existing \<Rightarrow>
          (case state existing of
             None \<Rightarrow> Inr False
           | Some t \<Rightarrow>
               if t = [] then Inr False
               else (case parse_State J t of
                       None \<Rightarrow> Inl JsonSyntaxError
                     | Some existingState \<Rightarrow> Inr (stateID existingState \<ge> stateID st))))"

text \<open>\<^verbatim>\<open>for (const entry of deltalog) insertLogStmt.run(id, JSON.stringify(entry))\<close>\<close>

fun insert_logs :: "'j JSON \<Rightarrow> string \<Rightarrow> 'j list \<Rightarrow> database \<Rightarrow> error + database" where
  "insert_logs J i [] d = Inr d"
| "insert_logs J i (entry # entries) d =
     (case sql_insert_log i (stringify_LogEntry J entry) d of
        Inl e \<Rightarrow> Inl e
      | Inr d' \<Rightarrow> insert_logs J i entries d')"

text \<open>The body of the transaction, lines 172 to 188.\<close>

definition setState_body ::
  "'j JSON \<Rightarrow> int \<Rightarrow> string \<Rightarrow> 'j State \<Rightarrow> 'j list option \<Rightarrow> database \<Rightarrow> error + database" where
  "setState_body J now i st deltalog d =
     (case deltalog of
        None \<Rightarrow> Inr (snd (sql_update_state (stringify_State J st) now i d))
      | Some entries \<Rightarrow>
          if length entries > 0
          then insert_logs J i entries (snd (sql_update_state (stringify_State J st) now i d))
          else Inr (snd (sql_update_state (stringify_State J st) now i d)))"

definition setState ::
  "'j JSON \<Rightarrow> int \<Rightarrow> string \<Rightarrow> 'j State \<Rightarrow> 'j list option \<Rightarrow> SQLiteStore
     \<Rightarrow> error option \<times> SQLiteStore" where
  "setState J now i st deltalog s =
     (if \<not> db_open s then (Some NotConnected, s)
      else
        (case stale_check J i st (db_file s) of
           Inl e \<Rightarrow> (Some e, s)
         | Inr True \<Rightarrow> (None, s)
         | Inr False \<Rightarrow>
             (case transaction (setState_body J now i st deltalog) (db_file s) of
                (r, d) \<Rightarrow> (r, s\<lparr>db_file := d\<rparr>))))"

text \<open>
  Lines 169 to 190 of \<^verbatim>\<open>setState\<close> on their own: what the method does once its check
  has let it through. The check is made before \<^verbatim>\<open>db.transaction\<close> is entered, so what
  another connection to the same file commits between the two is seen by the write and not
  by the check.
\<close>

definition setState_write ::
  "'j JSON \<Rightarrow> int \<Rightarrow> string \<Rightarrow> 'j State \<Rightarrow> 'j list option \<Rightarrow> SQLiteStore
     \<Rightarrow> error option \<times> SQLiteStore" where
  "setState_write J now i st deltalog s =
     (case transaction (setState_body J now i st deltalog) (db_file s) of
        (r, d) \<Rightarrow> (r, s\<lparr>db_file := d\<rparr>))"

definition setMetadata ::
  "'j JSON \<Rightarrow> int \<Rightarrow> string \<Rightarrow> 'j MatchData \<Rightarrow> SQLiteStore \<Rightarrow> error option \<times> SQLiteStore" where
  "setMetadata J now i md s =
     (if \<not> db_open s then (Some NotConnected, s)
      else (None, s\<lparr>db_file := snd (sql_update_metadata (stringify_MatchData J md) now i (db_file s))\<rparr>))"

definition wipe :: "string \<Rightarrow> SQLiteStore \<Rightarrow> error option \<times> SQLiteStore" where
  "wipe i s =
     (if \<not> db_open s then (Some NotConnected, s)
      else (None, s\<lparr>db_file := snd (sql_delete_match i (db_file s))\<rparr>))"

subsection \<open>\<^verbatim>\<open>listMatches\<close>\<close>

text \<open>\<^verbatim>\<open>opts?.gameName\<close>, \<^verbatim>\<open>opts?.where?.updatedBefore\<close> and the like.\<close>

definition opts_gameName :: "ListMatchesOpts option \<Rightarrow> string option" where
  "opts_gameName opts = (case opts of None \<Rightarrow> None | Some p \<Rightarrow> lm_gameName p)"

definition opts_where :: "ListMatchesOpts option \<Rightarrow> ListMatchesWhere option" where
  "opts_where opts = (case opts of None \<Rightarrow> None | Some p \<Rightarrow> lm_where p)"

definition opts_updatedBefore :: "ListMatchesOpts option \<Rightarrow> int option" where
  "opts_updatedBefore opts = (case opts_where opts of None \<Rightarrow> None | Some w \<Rightarrow> updatedBefore w)"

definition opts_updatedAfter :: "ListMatchesOpts option \<Rightarrow> int option" where
  "opts_updatedAfter opts = (case opts_where opts of None \<Rightarrow> None | Some w \<Rightarrow> updatedAfter w)"

definition opts_isGameover :: "ListMatchesOpts option \<Rightarrow> bool option" where
  "opts_isGameover opts = (case opts_where opts of None \<Rightarrow> None | Some w \<Rightarrow> isGameover w)"

text \<open>
  The \<^verbatim>\<open>WHERE\<close> clause that lines 225 to 241 assemble: a condition is added for a
  game name that is truthy (not the empty string) and for each time bound that is defined.
\<close>

definition sql_where :: "ListMatchesOpts option \<Rightarrow> MatchRow \<Rightarrow> bool" where
  "sql_where opts r =
     ((case opts_gameName opts of
         None \<Rightarrow> True
       | Some g \<Rightarrow> if g = [] then True else gameName r = g)
      \<and> (case opts_updatedBefore opts of None \<Rightarrow> True | Some t \<Rightarrow> updatedAt r < t)
      \<and> (case opts_updatedAfter opts of None \<Rightarrow> True | Some t \<Rightarrow> updatedAt r > t))"

text \<open>
  \<^verbatim>\<open>SELECT id, metadata FROM matches WHERE ... ORDER BY updatedAt DESC\<close>. SQL fixes the
  order of the result only up to rows with equal \<^verbatim>\<open>updatedAt\<close>: in which order those
  come back is SQLite's choice and depends on the query plan (a backward scan of
  \<^verbatim>\<open>idx_matches_updatedAt\<close> returns them latest row first). The sorting is therefore the
  parameter \<open>order_by\<close>, as \<^verbatim>\<open>JSON\<close> is one; what SQL guarantees of it is
  \<open>orders_by_updatedAt_desc\<close> below. The rows are kept whole, the caller reads
  \<^verbatim>\<open>id\<close> and \<^verbatim>\<open>metadata\<close> only.
\<close>

definition sql_select_matches ::
  "(MatchRow list \<Rightarrow> MatchRow list) \<Rightarrow> ListMatchesOpts option \<Rightarrow> database \<Rightarrow> MatchRow list" where
  "sql_select_matches order_by opts d = order_by (filter (sql_where opts) (matches d))"

text \<open>The callback of \<^verbatim>\<open>rows.filter\<close>, lines 251 to 256.\<close>

definition gameover_pred :: "'j JSON \<Rightarrow> bool \<Rightarrow> MatchRow \<Rightarrow> error + bool" where
  "gameover_pred J want row =
     (case metadata row of
        None \<Rightarrow> Inr False
      | Some t \<Rightarrow>
          if t = [] then Inr False
          else (case parse_MatchData J t of
                  None \<Rightarrow> Inl JsonSyntaxError
                | Some md \<Rightarrow> Inr (if want then gameover md \<noteq> None else \<not> (gameover md \<noteq> None))))"

text \<open>\<^verbatim>\<open>Array.prototype.filter\<close> with a callback that may throw.\<close>

fun filter_rows :: "(MatchRow \<Rightarrow> error + bool) \<Rightarrow> MatchRow list \<Rightarrow> error + MatchRow list" where
  "filter_rows p [] = Inr []"
| "filter_rows p (row # rows) =
     (case p row of
        Inl e \<Rightarrow> Inl e
      | Inr keep \<Rightarrow>
          (case filter_rows p rows of
             Inl e \<Rightarrow> Inl e
           | Inr kept \<Rightarrow> Inr (if keep then row # kept else kept)))"

definition listMatches ::
  "'j JSON \<Rightarrow> (MatchRow list \<Rightarrow> MatchRow list) \<Rightarrow> ListMatchesOpts option \<Rightarrow> SQLiteStore
     \<Rightarrow> error + string list" where
  "listMatches J order_by opts s =
     (if \<not> db_open s then Inl NotConnected
      else
        (case (case opts_isGameover opts of
                 None \<Rightarrow> Inr (sql_select_matches order_by opts (db_file s))
               | Some want \<Rightarrow>
                   filter_rows (gameover_pred J want)
                     (sql_select_matches order_by opts (db_file s))) of
           Inl e \<Rightarrow> Inl e
         | Inr filtered \<Rightarrow> Inr (map id_m filtered)))"

section \<open>Notions used to state the properties\<close>

text \<open>
  Referential integrity of \<^verbatim>\<open>logs.matchId\<close>, which SQLite maintains for a database
  that is only written with \<^verbatim>\<open>foreign_keys = ON\<close>, and uniqueness of the primary key.
\<close>

definition referential_integrity :: "database \<Rightarrow> bool" where
  "referential_integrity d = (\<forall>l \<in> set (logs d). matchId l \<in> set (map id_m (matches d)))"

definition primary_key :: "database \<Rightarrow> bool" where
  "primary_key d = distinct (map id_m (matches d))"

definition consistent :: "database \<Rightarrow> bool" where
  "consistent d = (primary_key d \<and> referential_integrity d)"

text \<open>The database that \<^verbatim>\<open>connect\<close> finds in a file it has just created.\<close>

definition empty_database :: database where
  "empty_database = \<lparr>matches = [], logs = [], logs_seq = 0\<rparr>"

text \<open>
  What SQL guarantees of \<^verbatim>\<open>ORDER BY updatedAt DESC\<close> on the rows it is given: the same
  rows come back, in descending order of \<^verbatim>\<open>updatedAt\<close>.
\<close>

definition orders_by_updatedAt_desc :: "(MatchRow list \<Rightarrow> MatchRow list) \<Rightarrow> MatchRow list \<Rightarrow> bool" where
  "orders_by_updatedAt_desc order_by rows =
     (mset (order_by rows) = mset rows
      \<and> sorted_wrt (\<lambda>a b. updatedAt a \<ge> updatedAt b) (order_by rows))"

definition all_fields :: FetchOpts where
  "all_fields = \<lparr>fo_state = Some True, fo_metadata = Some True, fo_initialState = Some True,
                  fo_log = Some True\<rparr>"

text \<open>
  The \<^verbatim>\<open>_stateID\<close> that \<^verbatim>\<open>setState\<close> reads back from the stored state of a match
  (lines 158 to 162), if there is one.
\<close>

definition stored_stateID :: "'j JSON \<Rightarrow> string \<Rightarrow> SQLiteStore \<Rightarrow> int option" where
  "stored_stateID J i s =
     (case sql_select_match i (db_file s) of
        None \<Rightarrow> None
      | Some row \<Rightarrow>
          (case state row of
             None \<Rightarrow> None
           | Some t \<Rightarrow> if t = [] then None else map_option stateID (parse_State J t)))"

text \<open>
  A call of \<^verbatim>\<open>setState\<close> is applied when the stale check lets it through and the
  transaction commits.
\<close>

definition applied ::
  "'j JSON \<Rightarrow> int \<Rightarrow> string \<Rightarrow> 'j State \<Rightarrow> 'j list option \<Rightarrow> SQLiteStore \<Rightarrow> bool" where
  "applied J now i st deltalog s =
     (db_open s \<and> stale_check J i st (db_file s) = Inr False
      \<and> fst (setState J now i st deltalog s) = None)"

text \<open>
  A sequence of calls of \<^verbatim>\<open>setState\<close> on one match, each with its time, state and log
  batch, by a caller that goes on after a call that throws; and the calls among them that
  were applied.
\<close>

fun setState_calls ::
  "'j JSON \<Rightarrow> string \<Rightarrow> (int \<times> 'j State \<times> 'j list option) list \<Rightarrow> SQLiteStore \<Rightarrow> SQLiteStore" where
  "setState_calls J i [] s = s"
| "setState_calls J i ((now, st, deltalog) # calls) s =
     setState_calls J i calls (snd (setState J now i st deltalog s))"

fun applied_calls ::
  "'j JSON \<Rightarrow> string \<Rightarrow> (int \<times> 'j State \<times> 'j list option) list \<Rightarrow> SQLiteStore
     \<Rightarrow> (int \<times> 'j State \<times> 'j list option) list" where
  "applied_calls J i [] s = []"
| "applied_calls J i ((now, st, deltalog) # calls) s =
     (if applied J now i st deltalog s then [(now, st, deltalog)] else [])
       @ applied_calls J i calls (snd (setState J now i st deltalog s))"

definition call_stateID :: "int \<times> 'j State \<times> 'j list option \<Rightarrow> int" where
  "call_stateID c = stateID (fst (snd c))"

definition call_batch :: "int \<times> 'j State \<times> 'j list option \<Rightarrow> 'j list" where
  "call_batch c = (case snd (snd c) of None \<Rightarrow> [] | Some entries \<Rightarrow> entries)"

definition only_state :: FetchOpts where
  "only_state = \<lparr>fo_state = Some True, fo_metadata = None, fo_initialState = None, fo_log = None\<rparr>"

definition only_log :: FetchOpts where
  "only_log = \<lparr>fo_state = None, fo_metadata = None, fo_initialState = None, fo_log = Some True\<rparr>"

section \<open>A sample store\<close>

text \<open>
  A small codec and database on which the theorems below are instantiated. A state is
  written as its \<^verbatim>\<open>_stateID\<close> in unary, a colon and its payload; metadata as a sign for
  \<^verbatim>\<open>gameover\<close> followed by the game name; a log entry as the letter e and its payload.
\<close>

definition sample_JSON :: "string JSON" where
  "sample_JSON =
     \<lparr>stringify_State = (\<lambda>st. replicate (nat (stateID st)) CHR ''1'' @ CHR '':'' # payload st),
      parse_State = (\<lambda>t.
         if CHR '':'' \<in> set t
         then Some \<lparr>stateID = int (length (takeWhile (\<lambda>c. c \<noteq> CHR '':'') t)),
                    payload = tl (dropWhile (\<lambda>c. c \<noteq> CHR '':'') t)\<rparr>
         else None),
      stringify_MatchData = (\<lambda>md.
         (case gameover md of None \<Rightarrow> CHR ''-'' | Some _ \<Rightarrow> CHR ''+'')
           # (case md_gameName md of None \<Rightarrow> [] | Some g \<Rightarrow> g)),
      parse_MatchData = (\<lambda>t.
         case t of
           [] \<Rightarrow> None
         | c # g \<Rightarrow>
             if c = CHR ''+'' then Some \<lparr>md_gameName = Some g, gameover = Some [], md_rest = []\<rparr>
             else if c = CHR ''-'' then Some \<lparr>md_gameName = Some g, gameover = None, md_rest = []\<rparr>
             else None),
      stringify_LogEntry = (\<lambda>e. CHR ''e'' # e),
      parse_LogEntry = (\<lambda>t. case t of [] \<Rightarrow> None | c # e \<Rightarrow> if c = CHR ''e'' then Some e else None)\<rparr>"

definition sample_state :: "int \<Rightarrow> string State" where
  "sample_state n = \<lparr>stateID = n, payload = ''G''\<rparr>"

definition sample_metadata :: "string MatchData" where
  "sample_metadata = \<lparr>md_gameName = Some ''g1'', gameover = None, md_rest = []\<rparr>"

text \<open>
  Match A is running, match B is over, and match N has no state and no metadata (both
  columns are nullable). A has one log entry.
\<close>

definition sample_db :: database where
  "sample_db =
     \<lparr>matches =
        [\<lparr>id_m = ''A'', gameName = ''g1'', state = Some ''11:G'', initialState = Some '':G'',
          metadata = Some ''-g1'', createdAt = 10, updatedAt = 20\<rparr>,
         \<lparr>id_m = ''B'', gameName = ''g1'', state = Some ''1:G'', initialState = Some '':G'',
          metadata = Some ''+g1'', createdAt = 11, updatedAt = 30\<rparr>,
         \<lparr>id_m = ''N'', gameName = ''g2'', state = None, initialState = None,
          metadata = None, createdAt = 12, updatedAt = 25\<rparr>],
      logs = [\<lparr>id_l = 1, matchId = ''A'', logEntry = ''ex''\<rparr>],
      logs_seq = 1\<rparr>"

definition sample_store :: SQLiteStore where
  "sample_store = \<lparr>db_open = True, db_file = sample_db\<rparr>"

text \<open>
  An ordering that returns rows with equal \<^verbatim>\<open>updatedAt\<close> latest row first, and a store
  to list: P and U lie on the two time bounds used below, R belongs to another game, and Q
  and S have the same \<^verbatim>\<open>updatedAt\<close>, S being over.
\<close>

definition sample_order_by :: "MatchRow list \<Rightarrow> MatchRow list" where
  "sample_order_by rows = rev (sort_key updatedAt rows)"




text \<open>Three calls of \<^verbatim>\<open>setState\<close> on match A; the second one is stale.\<close>

definition sample_calls :: "(int \<times> string State \<times> string list option) list" where
  "sample_calls =
     [(50, sample_state 5, Some [''a'', ''b'']),
      (51, sample_state 3, Some [''y'']),
      (52, sample_state 7, Some [''c''])]"

section \<open>Rows that no statement touches\<close>

lemma map_update_absent:
  "i \<notin> set (map id_m rows) \<Longrightarrow> map (\<lambda>r. if id_m r = i then f r else r) rows = rows"
  by (induction rows) auto

lemma filter_absent_length:
  "i \<notin> set (map id_m rows) \<Longrightarrow> length (filter (\<lambda>r. id_m r = i) rows) = 0"
  by (induction rows) auto

lemma sql_update_state_absent:
  "i \<notin> set (map id_m (matches d)) \<Longrightarrow> sql_update_state text now i d = (0, d)"
  by (simp add: sql_update_state_def map_update_absent filter_absent_length del: set_map)

lemma sql_update_metadata_absent:
  "i \<notin> set (map id_m (matches d)) \<Longrightarrow> sql_update_metadata text now i d = (0, d)"
  by (simp add: sql_update_metadata_def map_update_absent filter_absent_length del: set_map)

lemma sql_delete_match_absent:
  "i \<notin> set (map id_m (matches d)) \<Longrightarrow> sql_delete_match i d = (0, d)"
  by (simp add: sql_delete_match_def filter_absent_length del: set_map)

lemma sql_select_match_None:
  "sql_select_match i d = None \<longleftrightarrow> i \<notin> set (map id_m (matches d))"
  by (auto simp: sql_select_match_def find_None_iff)

lemma stale_check_absent:
  "i \<notin> set (map id_m (matches d)) \<Longrightarrow> stale_check J i st d = Inr False"
  using sql_select_match_None [of i d] by (simp add: stale_check_def del: set_map)

lemma insert_logs_absent:
  "i \<notin> set (map id_m (matches d)) \<Longrightarrow> entries \<noteq> [] \<Longrightarrow>
     insert_logs J i entries d = Inl ConstraintForeignKey"
  by (cases entries) (simp_all add: sql_insert_log_def del: set_map)

lemma sample_Z_absent: "''Z'' \<notin> set (map id_m (matches (db_file sample_store)))"
  by (simp add: sample_store_def sample_db_def)

lemma sample_open: "db_open sample_store"
  by (simp add: sample_store_def)

section \<open>Mutations of an unknown match\<close>

text \<open>
  C7. Where no row of \<^verbatim>\<open>matches\<close> has the given id, \<^verbatim>\<open>setMetadata\<close> and \<^verbatim>\<open>wipe\<close>
  on a connected store throw nothing and return the store as it was; the \<^verbatim>\<open>UPDATE\<close> and
  the \<^verbatim>\<open>DELETE\<close> change zero rows.
\<close>

theorem unknown_id_mutation_is_noop:
  assumes "db_open s" and "i \<notin> set (map id_m (matches (db_file s)))"
  shows "setMetadata J now i md s = (None, s)
       \<and> fst (sql_update_metadata (stringify_MatchData J md) now i (db_file s)) = 0
       \<and> wipe i s = (None, s)
       \<and> fst (sql_delete_match i (db_file s)) = 0"
  using assms
  by (simp add: setMetadata_def wipe_def sql_update_metadata_absent sql_delete_match_absent
           del: set_map)

theorem unknown_id_mutation_is_noop_witness:
  "db_open sample_store
 \<and> ''Z'' \<notin> set (map id_m (matches (db_file sample_store)))
 \<and> setMetadata sample_JSON 99 ''Z'' sample_metadata sample_store = (None, sample_store)
 \<and> fst (sql_update_metadata (stringify_MatchData sample_JSON sample_metadata) 99 ''Z''
          (db_file sample_store)) = 0
 \<and> wipe ''Z'' sample_store = (None, sample_store)
 \<and> fst (sql_delete_match ''Z'' (db_file sample_store)) = 0"
  using sample_open sample_Z_absent
    unknown_id_mutation_is_noop [OF sample_open sample_Z_absent,
      where J = sample_JSON and now = 99 and md = sample_metadata]
  by blast

text \<open>
  C10. Where no row of \<^verbatim>\<open>matches\<close> has the given id, the stale check of \<^verbatim>\<open>setState\<close>
  lets the call through. Without a log batch, or with an empty one, the call throws
  nothing and the store is as before (the \<^verbatim>\<open>UPDATE\<close> changes zero rows). With a batch
  that is not empty the first \<^verbatim>\<open>INSERT INTO logs\<close> violates the foreign key, the
  transaction is rolled back, and the call throws with the store as before.
\<close>

theorem setState_unknown_id:
  assumes "db_open s" and "i \<notin> set (map id_m (matches (db_file s)))"
  shows "stale_check J i st (db_file s) = Inr False
       \<and> fst (sql_update_state (stringify_State J st) now i (db_file s)) = 0
       \<and> setState J now i st None s = (None, s)
       \<and> setState J now i st (Some []) s = (None, s)
       \<and> (entries \<noteq> [] \<longrightarrow>
            transaction (setState_body J now i st (Some entries)) (db_file s)
              = (Some ConstraintForeignKey, db_file s)
          \<and> setState J now i st (Some entries) s = (Some ConstraintForeignKey, s))"
  using assms
  by (simp add: setState_def stale_check_absent transaction_def setState_body_def
        sql_update_state_absent insert_logs_absent del: set_map)

theorem setState_unknown_id_witness:
  "db_open sample_store
 \<and> ''Z'' \<notin> set (map id_m (matches (db_file sample_store)))
 \<and> [''x'', ''y''] \<noteq> []
 \<and> setState sample_JSON 99 ''Z'' (sample_state 7) None sample_store = (None, sample_store)
 \<and> setState sample_JSON 99 ''Z'' (sample_state 7) (Some []) sample_store = (None, sample_store)
 \<and> setState sample_JSON 99 ''Z'' (sample_state 7) (Some [''x'', ''y'']) sample_store
      = (Some ConstraintForeignKey, sample_store)"
proof -
  have ne: "[''x'', ''y''] \<noteq> ([] :: string list)" by simp
  from setState_unknown_id [OF sample_open sample_Z_absent,
      where J = sample_JSON and now = 99 and st = "sample_state 7" and entries = "[''x'', ''y'']"]
    sample_open sample_Z_absent ne
  show ?thesis by blast
qed

section \<open>Create and fetch\<close>

lemma find_snoc_absent:
  "\<forall>x \<in> set xs. \<not> P x \<Longrightarrow> find P (xs @ [y]) = (if P y then Some y else None)"
  by (induction xs) auto

lemma no_logs_of_absent_match:
  assumes "referential_integrity d" and "i \<notin> set (map id_m (matches d))"
  shows "sql_select_logs i d = []"
proof -
  from assms have "filter (\<lambda>l. matchId l = i) (logs d) = []"
    by (auto simp: referential_integrity_def filter_empty_conv)
  then show ?thesis by (simp add: sql_select_logs_def)
qed

lemma sql_select_logs_matches_update [simp]:
  "sql_select_logs i (d\<lparr>matches := ms\<rparr>) = sql_select_logs i d"
  by (simp add: sql_select_logs_def)

lemma sample_integrity: "referential_integrity (db_file sample_store)"
  by (simp add: referential_integrity_def sample_store_def sample_db_def)

lemma sample_state_roundtrip:
  "parse_State sample_JSON (stringify_State sample_JSON (sample_state 0)) = Some (sample_state 0)"
  "stringify_State sample_JSON (sample_state 0) \<noteq> []"
  by (simp_all add: sample_JSON_def sample_state_def)

lemma sample_metadata_roundtrip:
  "parse_MatchData sample_JSON (stringify_MatchData sample_JSON sample_metadata)
     = Some sample_metadata"
  "stringify_MatchData sample_JSON sample_metadata \<noteq> []"
  by (simp_all add: sample_JSON_def sample_metadata_def)

text \<open>
  C5. On a connected store whose database respects the foreign key of \<^verbatim>\<open>logs\<close>, for an
  id that no match has yet and payloads that \<^verbatim>\<open>JSON.parse\<close> reads back from what
  \<^verbatim>\<open>JSON.stringify\<close> wrote: \<^verbatim>\<open>createMatch\<close> throws nothing, and fetching the id with
  all four fields enabled returns the initial state as \<^verbatim>\<open>state\<close> and as
  \<^verbatim>\<open>initialState\<close>, the metadata passed to create, and the empty log.
\<close>

theorem createMatch_fetch_roundtrip:
  assumes conn: "db_open s"
    and fresh: "i \<notin> set (map id_m (matches (db_file s)))"
    and integ: "referential_integrity (db_file s)"
    and st_rt: "parse_State J (stringify_State J (cm_initialState opts)) = Some (cm_initialState opts)"
    and st_ne: "stringify_State J (cm_initialState opts) \<noteq> []"
    and md_rt: "parse_MatchData J (stringify_MatchData J (cm_metadata opts)) = Some (cm_metadata opts)"
    and md_ne: "stringify_MatchData J (cm_metadata opts) \<noteq> []"
  shows "fst (createMatch J now i opts s) = None
       \<and> fetch J i all_fields (snd (createMatch J now i opts s))
           = Inr \<lparr>ff_state = Some (cm_initialState opts),
                  ff_metadata = Some (cm_metadata opts),
                  ff_initialState = Some (cm_initialState opts),
                  ff_log = Some []\<rparr>"
proof -
  let ?row = "\<lparr>id_m = i,
               gameName = (case md_gameName (cm_metadata opts) of None \<Rightarrow> [] | Some g \<Rightarrow> g),
               state = Some (stringify_State J (cm_initialState opts)),
               initialState = Some (stringify_State J (cm_initialState opts)),
               metadata = Some (stringify_MatchData J (cm_metadata opts)),
               createdAt = now, updatedAt = now\<rparr>"
  let ?d = "(db_file s)\<lparr>matches := matches (db_file s) @ [?row]\<rparr>"
  have ins: "sql_insert_match ?row (db_file s) = Inr ?d"
    using fresh by (simp add: sql_insert_match_def del: set_map)
  have cm: "createMatch J now i opts s = (None, s\<lparr>db_file := ?d\<rparr>)"
    using conn ins by (simp add: createMatch_def)
  have "\<forall>r \<in> set (matches (db_file s)). \<not> id_m r = i"
    using fresh by auto
  then have sel: "sql_select_match i ?d = Some ?row"
    by (simp add: sql_select_match_def find_snoc_absent)
  have lg: "sql_select_logs i ?d = []"
    using no_logs_of_absent_match [OF integ fresh] by simp
  show ?thesis
    using conn sel lg st_rt st_ne md_rt md_ne
    by (simp add: cm fetch_def all_fields_def truthy_bool_def parse_column_def)
qed

theorem createMatch_fetch_roundtrip_witness:
  "db_open sample_store
 \<and> ''Z'' \<notin> set (map id_m (matches (db_file sample_store)))
 \<and> referential_integrity (db_file sample_store)
 \<and> fst (createMatch sample_JSON 40 ''Z''
          \<lparr>cm_initialState = sample_state 0, cm_metadata = sample_metadata\<rparr> sample_store) = None
 \<and> fetch sample_JSON ''Z'' all_fields
      (snd (createMatch sample_JSON 40 ''Z''
             \<lparr>cm_initialState = sample_state 0, cm_metadata = sample_metadata\<rparr> sample_store))
      = Inr \<lparr>ff_state = Some (sample_state 0), ff_metadata = Some sample_metadata,
             ff_initialState = Some (sample_state 0), ff_log = Some []\<rparr>"
  using sample_open sample_Z_absent sample_integrity
    createMatch_fetch_roundtrip [where s = sample_store and i = "''Z''" and J = sample_JSON
      and now = 40 and opts = "\<lparr>cm_initialState = sample_state 0, cm_metadata = sample_metadata\<rparr>"]
    sample_state_roundtrip sample_metadata_roundtrip
  by simp

text \<open>
  C6. Whatever the selector, a result of \<^verbatim>\<open>fetch\<close> has no field that the selector did not
  enable: a field whose flag is not \<^verbatim>\<open>true\<close> is \<^verbatim>\<open>undefined\<close> in the result. On a
  connected store with no row for the id, \<^verbatim>\<open>fetch\<close> throws nothing and returns the
  empty result.
\<close>

theorem fetch_field_selection:
  "(fetch J i opts s = Inr r \<longrightarrow>
      (\<not> truthy_bool (fo_state opts) \<longrightarrow> ff_state r = None)
    \<and> (\<not> truthy_bool (fo_metadata opts) \<longrightarrow> ff_metadata r = None)
    \<and> (\<not> truthy_bool (fo_initialState opts) \<longrightarrow> ff_initialState r = None)
    \<and> (\<not> truthy_bool (fo_log opts) \<longrightarrow> ff_log r = None))
 \<and> (db_open s \<and> i \<notin> set (map id_m (matches (db_file s))) \<longrightarrow>
      fetch J i opts s = Inr empty_result)"
proof (intro conjI impI)
  assume "db_open s \<and> i \<notin> set (map id_m (matches (db_file s)))"
  then show "fetch J i opts s = Inr empty_result"
    using sql_select_match_None [of i "db_file s"] by (simp add: fetch_def del: set_map)
next
  assume f: "fetch J i opts s = Inr r"
  { assume "\<not> truthy_bool (fo_state opts)"
    with f show "ff_state r = None"
      by (auto simp: fetch_def empty_result_def split: if_splits option.splits sum.splits) }
  { assume "\<not> truthy_bool (fo_metadata opts)"
    with f show "ff_metadata r = None"
      by (auto simp: fetch_def empty_result_def split: if_splits option.splits sum.splits) }
  { assume "\<not> truthy_bool (fo_initialState opts)"
    with f show "ff_initialState r = None"
      by (auto simp: fetch_def empty_result_def split: if_splits option.splits sum.splits) }
  { assume "\<not> truthy_bool (fo_log opts)"
    with f show "ff_log r = None"
      by (auto simp: fetch_def empty_result_def split: if_splits option.splits sum.splits) }
qed

theorem fetch_field_selection_witness:
  "fetch sample_JSON ''A''
     \<lparr>fo_state = Some True, fo_metadata = None, fo_initialState = Some False, fo_log = None\<rparr>
     sample_store
     = Inr \<lparr>ff_state = Some (sample_state 2), ff_metadata = None, ff_initialState = None,
            ff_log = None\<rparr>
 \<and> db_open sample_store
 \<and> ''Z'' \<notin> set (map id_m (matches (db_file sample_store)))
 \<and> fetch sample_JSON ''Z'' all_fields sample_store = Inr empty_result"
proof -
  have "fetch sample_JSON ''A''
     \<lparr>fo_state = Some True, fo_metadata = None, fo_initialState = Some False, fo_log = None\<rparr>
     sample_store
     = Inr \<lparr>ff_state = Some (sample_state 2), ff_metadata = None, ff_initialState = None,
            ff_log = None\<rparr>"
    by (simp add: fetch_def sample_store_def sample_db_def sql_select_match_def truthy_bool_def
          parse_column_def sample_JSON_def sample_state_def)
  with sample_open sample_Z_absent
    fetch_field_selection [of sample_JSON "''Z''" all_fields sample_store]
  show ?thesis by blast
qed

section \<open>Columns that a write leaves alone\<close>

lemma insert_logs_matches:
  "insert_logs J i entries d = Inr d' \<Longrightarrow> matches d' = matches d"
  by (induction entries arbitrary: d)
     (auto simp: sql_insert_log_def split: sum.splits if_splits)

lemma setState_body_matches:
  "setState_body J now i st deltalog d = Inr d' \<Longrightarrow>
     matches d' = map (\<lambda>r. if id_m r = i then r\<lparr>state := Some (stringify_State J st), updatedAt := now\<rparr> else r)
                      (matches d)"
  by (auto simp: setState_body_def sql_update_state_def split: option.splits if_splits
           dest: insert_logs_matches)

lemma setState_matches:
  "matches (db_file (snd (setState J now i st deltalog s))) = matches (db_file s)
 \<or> matches (db_file (snd (setState J now i st deltalog s)))
      = map (\<lambda>r. if id_m r = i then r\<lparr>state := Some (stringify_State J st), updatedAt := now\<rparr> else r)
            (matches (db_file s))"
  by (auto simp: setState_def transaction_def split: sum.splits bool.splits
           dest: setState_body_matches)

lemma find_filter_other:
  "j \<noteq> i \<Longrightarrow> find (\<lambda>r. id_m r = j) (filter (\<lambda>r. id_m r \<noteq> i) rows) = find (\<lambda>r. id_m r = j) rows"
  by (induction rows) auto

lemma find_snoc_present:
  "j \<in> set (map id_m rows) \<Longrightarrow> find (\<lambda>r. id_m r = j) (rows @ [row]) = find (\<lambda>r. id_m r = j) rows"
  by (induction rows) auto

lemma sample_A_present: "''A'' \<in> set (map id_m (matches (db_file sample_store)))"
  by (simp add: sample_store_def sample_db_def)

text \<open>
  C8. \<^verbatim>\<open>setState\<close> leaves every column of every row of \<^verbatim>\<open>matches\<close> as it was, except
  \<^verbatim>\<open>state\<close> and \<^verbatim>\<open>updatedAt\<close>; \<^verbatim>\<open>setMetadata\<close> leaves every column as it was, except
  \<^verbatim>\<open>metadata\<close> and \<^verbatim>\<open>updatedAt\<close>, and leaves the logs as they were. So
  \<^verbatim>\<open>initialState\<close> survives both (and \<^verbatim>\<open>state\<close> survives \<^verbatim>\<open>setMetadata\<close>). The other
  two writes do not touch an existing row either: \<^verbatim>\<open>createMatch\<close> leaves the row of
  every existing id as it was, and \<^verbatim>\<open>wipe\<close> the row of every other id.
\<close>

theorem initialState_never_modified:
  "map (\<lambda>r. (id_m r, gameName r, initialState r, metadata r, createdAt r))
       (matches (db_file (snd (setState J now i st deltalog s))))
     = map (\<lambda>r. (id_m r, gameName r, initialState r, metadata r, createdAt r))
           (matches (db_file s))
 \<and> map (\<lambda>r. (id_m r, gameName r, state r, initialState r, createdAt r))
       (matches (db_file (snd (setMetadata J now i md s))))
     = map (\<lambda>r. (id_m r, gameName r, state r, initialState r, createdAt r))
           (matches (db_file s))
 \<and> logs (db_file (snd (setMetadata J now i md s))) = logs (db_file s)
 \<and> (j \<in> set (map id_m (matches (db_file s))) \<longrightarrow>
      sql_select_match j (db_file (snd (createMatch J now i opts s)))
        = sql_select_match j (db_file s))
 \<and> (j \<noteq> i \<longrightarrow>
      sql_select_match j (db_file (snd (wipe i s))) = sql_select_match j (db_file s))"
proof (intro conjI impI)
  show "map (\<lambda>r. (id_m r, gameName r, initialState r, metadata r, createdAt r))
       (matches (db_file (snd (setState J now i st deltalog s))))
     = map (\<lambda>r. (id_m r, gameName r, initialState r, metadata r, createdAt r))
           (matches (db_file s))"
    using setState_matches [of J now i st deltalog s] by (auto simp: comp_def)
  show "map (\<lambda>r. (id_m r, gameName r, state r, initialState r, createdAt r))
       (matches (db_file (snd (setMetadata J now i md s))))
     = map (\<lambda>r. (id_m r, gameName r, state r, initialState r, createdAt r))
           (matches (db_file s))"
    by (simp add: setMetadata_def sql_update_metadata_def comp_def)
  show "logs (db_file (snd (setMetadata J now i md s))) = logs (db_file s)"
    by (simp add: setMetadata_def sql_update_metadata_def)
  show "sql_select_match j (db_file (snd (createMatch J now i opts s)))
        = sql_select_match j (db_file s)"
    if "j \<in> set (map id_m (matches (db_file s)))"
    using that
    by (simp add: createMatch_def sql_insert_match_def sql_select_match_def find_snoc_present
             del: set_map)
  show "sql_select_match j (db_file (snd (wipe i s))) = sql_select_match j (db_file s)"
    if "j \<noteq> i"
    using that
    by (simp add: wipe_def sql_delete_match_def sql_select_match_def find_filter_other)
qed

theorem initialState_never_modified_witness:
  "''A'' \<in> set (map id_m (matches (db_file sample_store)))
 \<and> ''A'' \<noteq> ''B''
 \<and> fst (setState sample_JSON 50 ''A'' (sample_state 5) (Some [''x'']) sample_store) = None
 \<and> map state
      (matches (db_file (snd (setState sample_JSON 50 ''A'' (sample_state 5) (Some [''x''])
                               sample_store))))
     = [Some ''11111:G'', Some ''1:G'', None]
 \<and> map (\<lambda>r. (id_m r, gameName r, initialState r, metadata r, createdAt r))
       (matches (db_file (snd (setState sample_JSON 50 ''A'' (sample_state 5) (Some [''x''])
                                sample_store))))
     = map (\<lambda>r. (id_m r, gameName r, initialState r, metadata r, createdAt r))
           (matches (db_file sample_store))
 \<and> map (\<lambda>r. (id_m r, gameName r, state r, initialState r, createdAt r))
       (matches (db_file (snd (setMetadata sample_JSON 50 ''A'' sample_metadata sample_store))))
     = map (\<lambda>r. (id_m r, gameName r, state r, initialState r, createdAt r))
           (matches (db_file sample_store))
 \<and> sql_select_match ''A''
      (db_file (snd (createMatch sample_JSON 50 ''Z''
                      \<lparr>cm_initialState = sample_state 0, cm_metadata = sample_metadata\<rparr>
                      sample_store)))
     = sql_select_match ''A'' (db_file sample_store)
 \<and> sql_select_match ''A'' (db_file (snd (wipe ''B'' sample_store)))
     = sql_select_match ''A'' (db_file sample_store)"
proof -
  have ne: "''A'' \<noteq> ''B''" by simp
  have run: "fst (setState sample_JSON 50 ''A'' (sample_state 5) (Some [''x'']) sample_store) = None
    \<and> map state
      (matches (db_file (snd (setState sample_JSON 50 ''A'' (sample_state 5) (Some [''x''])
                               sample_store))))
     = [Some ''11111:G'', Some ''1:G'', None]"
    by (simp add: setState_def stale_check_def sql_select_match_def sample_store_def sample_db_def
          sample_JSON_def sample_state_def transaction_def setState_body_def sql_update_state_def
          sql_insert_log_def next_log_id_def eval_nat_numeral)
  from initialState_never_modified [where J = sample_JSON and now = 50 and i = "''A''"
      and st = "sample_state 5" and deltalog = "Some [''x'']" and s = sample_store
      and md = sample_metadata]
  have a: "map (\<lambda>r. (id_m r, gameName r, initialState r, metadata r, createdAt r))
       (matches (db_file (snd (setState sample_JSON 50 ''A'' (sample_state 5) (Some [''x''])
                                sample_store))))
     = map (\<lambda>r. (id_m r, gameName r, initialState r, metadata r, createdAt r))
           (matches (db_file sample_store))"
    and b: "map (\<lambda>r. (id_m r, gameName r, state r, initialState r, createdAt r))
       (matches (db_file (snd (setMetadata sample_JSON 50 ''A'' sample_metadata sample_store))))
     = map (\<lambda>r. (id_m r, gameName r, state r, initialState r, createdAt r))
           (matches (db_file sample_store))"
    by blast+
  from initialState_never_modified [where J = sample_JSON and now = 50 and i = "''Z''"
      and j = "''A''" and s = sample_store
      and opts = "\<lparr>cm_initialState = sample_state 0, cm_metadata = sample_metadata\<rparr>"]
    sample_A_present
  have c: "sql_select_match ''A''
      (db_file (snd (createMatch sample_JSON 50 ''Z''
                      \<lparr>cm_initialState = sample_state 0, cm_metadata = sample_metadata\<rparr>
                      sample_store)))
     = sql_select_match ''A'' (db_file sample_store)"
    by blast
  from initialState_never_modified [where i = "''B''" and j = "''A''" and s = sample_store] ne
  have d: "sql_select_match ''A'' (db_file (snd (wipe ''B'' sample_store)))
     = sql_select_match ''A'' (db_file sample_store)"
    by blast
  from sample_A_present ne run a b c d show ?thesis by blast
qed

section \<open>Listing matches\<close>

lemma filter_rows_Inr:
  "filter_rows p rows = Inr kept \<Longrightarrow> kept = filter (\<lambda>r. p r = Inr True) rows"
  by (induction rows arbitrary: kept) (auto split: sum.splits if_splits)





lemma set_select:
  "orders_by_updatedAt_desc order_by (filter (sql_where opts) (matches d)) \<Longrightarrow>
     set (sql_select_matches order_by opts d) = {r \<in> set (matches d). sql_where opts r}"
proof -
  assume "orders_by_updatedAt_desc order_by (filter (sql_where opts) (matches d))"
  then have "mset (order_by (filter (sql_where opts) (matches d)))
               = mset (filter (sql_where opts) (matches d))"
    by (simp add: orders_by_updatedAt_desc_def)
  then have "set (order_by (filter (sql_where opts) (matches d)))
               = set (filter (sql_where opts) (matches d))"
    by (rule mset_eq_setD)
  then show ?thesis by (simp add: sql_select_matches_def)
qed

lemma listMatches_filtered:
  assumes "listMatches J order_by opts s = Inr ids" and "opts_isGameover opts = Some want"
  shows "ids = map id_m (filter (\<lambda>r. gameover_pred J want r = Inr True)
                           (sql_select_matches order_by opts (db_file s)))"
  using assms
  by (auto simp: listMatches_def split: if_splits sum.splits dest: filter_rows_Inr)

lemma distinct_id_eq:
  "distinct (map id_m rows) \<Longrightarrow> r \<in> set rows \<Longrightarrow> r' \<in> set rows \<Longrightarrow> id_m r' = id_m r \<Longrightarrow> r' = r"
  by (meson distinct_map inj_onD)

lemma gameover_pred_falsy:
  "\<not> truthy_text (metadata r) \<Longrightarrow> gameover_pred J want r = Inr False"
  by (auto simp: truthy_text_def gameover_pred_def split: option.splits)

lemma sample_order_by_sorts: "orders_by_updatedAt_desc sample_order_by rows"
proof -
  have "sorted (map updatedAt (sort_key updatedAt rows))" by simp
  then have "sorted_wrt (\<lambda>a b. updatedAt a \<le> updatedAt b) (sort_key updatedAt rows)"
    by (simp add: sorted_wrt_map)
  then have "sorted_wrt (\<lambda>a b. updatedAt a \<ge> updatedAt b) (rev (sort_key updatedAt rows))"
    by (simp add: sorted_wrt_rev)
  then show ?thesis
    by (simp add: orders_by_updatedAt_desc_def sample_order_by_def)
qed

lemma sample_list_false:
  "listMatches sample_JSON sample_order_by
     (Some \<lparr>lm_gameName = None,
            lm_where = Some \<lparr>isGameover = Some False, updatedBefore = None, updatedAfter = None\<rparr>\<rparr>)
     sample_store = Inr [''A'']"
  by (simp add: listMatches_def opts_isGameover_def opts_where_def sample_store_def sample_db_def
        sql_select_matches_def sql_where_def opts_gameName_def opts_updatedBefore_def
        opts_updatedAfter_def gameover_pred_def sample_JSON_def sample_order_by_def)

lemma sample_list_true:
  "listMatches sample_JSON sample_order_by
     (Some \<lparr>lm_gameName = None,
            lm_where = Some \<lparr>isGameover = Some True, updatedBefore = None, updatedAfter = None\<rparr>\<rparr>)
     sample_store = Inr [''B'']"
  by (simp add: listMatches_def opts_isGameover_def opts_where_def sample_store_def sample_db_def
        sql_select_matches_def sql_where_def opts_gameName_def opts_updatedBefore_def
        opts_updatedAfter_def gameover_pred_def sample_JSON_def sample_order_by_def)

lemma sample_primary_key: "primary_key (db_file sample_store)"
  by (simp add: primary_key_def sample_store_def sample_db_def)

lemma sample_N_row:
  "sql_select_match ''N'' (db_file sample_store) = Some \<lparr>id_m = ''N'', gameName = ''g2'', state = None, initialState = None,
          metadata = None, createdAt = 12, updatedAt = 25\<rparr>"
  by (simp add: sql_select_match_def sample_store_def sample_db_def)




section \<open>The game-over filter and rows without metadata\<close>

text \<open>
  C1, as the claim states it, fails: with \<^verbatim>\<open>isGameover: false\<close> requested, match N of
  the sample store, whose metadata is \<^verbatim>\<open>NULL\<close>, is not in the result.
\<close>

theorem null_metadata_included_counterexample:
  "sql_select_match ''N'' (db_file sample_store) = Some \<lparr>id_m = ''N'', gameName = ''g2'', state = None, initialState = None,
          metadata = None, createdAt = 12, updatedAt = 25\<rparr>
 \<and> orders_by_updatedAt_desc sample_order_by
     (filter (sql_where
        (Some \<lparr>lm_gameName = None,
               lm_where = Some \<lparr>isGameover = Some False, updatedBefore = None, updatedAfter = None\<rparr>\<rparr>))
        (matches (db_file sample_store)))
 \<and> listMatches sample_JSON sample_order_by
     (Some \<lparr>lm_gameName = None,
            lm_where = Some \<lparr>isGameover = Some False, updatedBefore = None, updatedAfter = None\<rparr>\<rparr>)
     sample_store = Inr [''A'']"
  using sample_N_row sample_order_by_sorts sample_list_false by blast

text \<open>
  C1, amended. The callback returns \<^verbatim>\<open>false\<close> for a row whose metadata is not truthy
  before it looks at the requested value: with the \<^verbatim>\<open>isGameover\<close> filter set, to
  \<^verbatim>\<open>true\<close> or to \<^verbatim>\<open>false\<close>, the id of a row whose metadata is \<^verbatim>\<open>NULL\<close> or the empty
  string is not in the result (ids being unique, and the query returning rows of the table).
\<close>

theorem null_metadata_always_excluded:
  assumes ord: "orders_by_updatedAt_desc order_by (filter (sql_where opts) (matches (db_file s)))"
    and res: "listMatches J order_by opts s = Inr ids"
    and flt: "opts_isGameover opts = Some want"
    and pk: "primary_key (db_file s)"
    and row: "r \<in> set (matches (db_file s))"
    and null: "\<not> truthy_text (metadata r)"
  shows "id_m r \<notin> set ids"
proof
  assume "id_m r \<in> set ids"
  then obtain r' where r': "r' \<in> set (sql_select_matches order_by opts (db_file s))"
      and keep: "gameover_pred J want r' = Inr True" and same: "id_m r' = id_m r"
    using listMatches_filtered [OF res flt] by auto
  from r' have "r' \<in> set (matches (db_file s))" by (simp add: set_select [OF ord])
  with pk row same have "r' = r" by (auto simp: primary_key_def dest: distinct_id_eq)
  with keep gameover_pred_falsy [OF null, of J want] show False by simp
qed

theorem null_metadata_always_excluded_witness:
  "orders_by_updatedAt_desc sample_order_by
     (filter (sql_where
        (Some \<lparr>lm_gameName = None,
               lm_where = Some \<lparr>isGameover = Some True, updatedBefore = None, updatedAfter = None\<rparr>\<rparr>))
        (matches (db_file sample_store)))
 \<and> listMatches sample_JSON sample_order_by
     (Some \<lparr>lm_gameName = None,
            lm_where = Some \<lparr>isGameover = Some True, updatedBefore = None, updatedAfter = None\<rparr>\<rparr>)
     sample_store = Inr [''B'']
 \<and> opts_isGameover
     (Some \<lparr>lm_gameName = None,
            lm_where = Some \<lparr>isGameover = Some True, updatedBefore = None, updatedAfter = None\<rparr>\<rparr>) = Some True
 \<and> primary_key (db_file sample_store)
 \<and> \<lparr>id_m = ''N'', gameName = ''g2'', state = None, initialState = None,
          metadata = None, createdAt = 12, updatedAt = 25\<rparr> \<in> set (matches (db_file sample_store))
 \<and> \<not> truthy_text (metadata \<lparr>id_m = ''N'', gameName = ''g2'', state = None, initialState = None,
          metadata = None, createdAt = 12, updatedAt = 25\<rparr>)
 \<and> id_m \<lparr>id_m = ''N'', gameName = ''g2'', state = None, initialState = None,
          metadata = None, createdAt = 12, updatedAt = 25\<rparr> \<notin> set [''B'']"
proof -
  have flt: "opts_isGameover
     (Some \<lparr>lm_gameName = None,
            lm_where = Some \<lparr>isGameover = Some True, updatedBefore = None, updatedAfter = None\<rparr>\<rparr>) = Some True"
    by (simp add: opts_isGameover_def opts_where_def)
  have row: "\<lparr>id_m = ''N'', gameName = ''g2'', state = None, initialState = None,
          metadata = None, createdAt = 12, updatedAt = 25\<rparr> \<in> set (matches (db_file sample_store))"
    by (simp add: sample_store_def sample_db_def)
  have null: "\<not> truthy_text (metadata \<lparr>id_m = ''N'', gameName = ''g2'', state = None, initialState = None,
          metadata = None, createdAt = 12, updatedAt = 25\<rparr>)"
    by (simp add: truthy_text_def)
  from null_metadata_always_excluded
         [OF sample_order_by_sorts sample_list_true flt sample_primary_key row null]
    sample_order_by_sorts sample_list_true flt sample_primary_key row null
  show ?thesis by blast
qed

section \<open>Appending to the log\<close>

lemma insort_key_append_greater:
  "\<forall>z \<in> set zs. f x < f z \<Longrightarrow> insort_key f x (as @ zs) = insort_key f x as @ zs"
proof (induction as)
  case Nil
  then show ?case by (cases zs) auto
next
  case (Cons a as)
  then show ?case by simp
qed

lemma foldr_insort_greater:
  "\<forall>x \<in> set xs. \<forall>z \<in> set zs. f x < f z \<Longrightarrow>
     foldr (insort_key f) xs zs = foldr (insort_key f) xs [] @ zs"
proof (induction xs)
  case Nil
  then show ?case by simp
next
  case (Cons x xs)
  then have "foldr (insort_key f) xs zs = foldr (insort_key f) xs [] @ zs" by simp
  moreover have "\<forall>z \<in> set zs. f x < f z" using Cons.prems by simp
  ultimately show ?case by (simp add: insort_key_append_greater)
qed

lemma sort_key_snoc_greater:
  "\<forall>x \<in> set xs. f x < f y \<Longrightarrow> sort_key f (xs @ [y]) = sort_key f xs @ [y]"
  using foldr_insort_greater [of xs "[y]" f] by (simp add: sort_key_def)

lemma le_fold_max: "(a::nat) \<le> b \<Longrightarrow> a \<le> fold max xs b"
proof (induction xs arbitrary: b)
  case Nil
  then show ?case by simp
next
  case (Cons x xs)
  from Cons.prems have "a \<le> max x b" by simp
  from Cons.IH [OF this] show ?case by simp
qed

lemma fold_max_ge: "x \<in> set xs \<Longrightarrow> x \<le> fold max xs (a::nat)"
proof (induction xs arbitrary: a)
  case Nil
  then show ?case by simp
next
  case (Cons y ys)
  show ?case
  proof (cases "x = y")
    case True
    then show ?thesis using le_fold_max [of x "max y a" ys] by simp
  next
    case False
    with Cons.prems have "x \<in> set ys" by simp
    from Cons.IH [OF this] show ?thesis by simp
  qed
qed

lemma next_log_id_greater: "l \<in> set (logs d) \<Longrightarrow> id_l l < next_log_id d"
  using fold_max_ge [of "id_l l" "map id_l (logs d)" "logs_seq d"]
  by (simp add: next_log_id_def less_Suc_eq_le)

lemma sql_insert_log_select:
  assumes "sql_insert_log i text d = Inr d'"
  shows "sql_select_logs i d' = sql_select_logs i d @ [text]"
    and "matches d' = matches d"
proof -
  from assms have d': "d' = d\<lparr>logs := logs d @ [\<lparr>id_l = next_log_id d, matchId = i, logEntry = text\<rparr>],
                  logs_seq := next_log_id d\<rparr>"
    by (auto simp: sql_insert_log_def split: if_splits)
  have "\<forall>x \<in> set (filter (\<lambda>l. matchId l = i) (logs d)).
          id_l x < id_l \<lparr>id_l = next_log_id d, matchId = i, logEntry = text\<rparr>"
    by (auto dest: next_log_id_greater)
  then show "sql_select_logs i d' = sql_select_logs i d @ [text]"
    by (simp add: d' sql_select_logs_def sort_key_snoc_greater)
  show "matches d' = matches d" by (simp add: d')
qed

lemma insert_logs_present:
  "i \<in> set (map id_m (matches d)) \<Longrightarrow>
     \<exists>d'. insert_logs J i entries d = Inr d'
        \<and> matches d' = matches d
        \<and> sql_select_logs i d' = sql_select_logs i d @ map (stringify_LogEntry J) entries"
proof (induction entries arbitrary: d)
  case Nil
  then show ?case by simp
next
  case (Cons e es)
  then obtain d1 where d1: "sql_insert_log i (stringify_LogEntry J e) d = Inr d1"
    by (simp add: sql_insert_log_def del: set_map)
  note sel = sql_insert_log_select [OF d1]
  with Cons.prems have "i \<in> set (map id_m (matches d1))" by simp
  from Cons.IH [OF this] obtain d' where "insert_logs J i es d1 = Inr d'"
    "matches d' = matches d1"
    "sql_select_logs i d' = sql_select_logs i d1 @ map (stringify_LogEntry J) es"
    by blast
  with d1 sel show ?case by simp
qed

section \<open>One call of \<^verbatim>\<open>setState\<close>\<close>

lemma map_id_update:
  "map id_m (map (\<lambda>r. if id_m r = i then r\<lparr>state := x, updatedAt := n\<rparr> else r) rows) = map id_m rows"
  by (induction rows) auto

lemma find_map_update:
  "find (\<lambda>r. id_m r = i) (map (\<lambda>r. if id_m r = i then r\<lparr>state := x, updatedAt := n\<rparr> else r) rows)
     = map_option (\<lambda>r. r\<lparr>state := x, updatedAt := n\<rparr>) (find (\<lambda>r. id_m r = i) rows)"
  by (induction rows) auto

lemma setState_body_present:
  assumes "i \<in> set (map id_m (matches d))"
  shows "\<exists>d'. setState_body J now i st deltalog d = Inr d'
        \<and> matches d' = map (\<lambda>r. if id_m r = i
                                  then r\<lparr>state := Some (stringify_State J st), updatedAt := now\<rparr>
                                  else r) (matches d)
        \<and> sql_select_logs i d'
            = sql_select_logs i d @ map (stringify_LogEntry J) (call_batch (now, st, deltalog))"
proof -
  let ?d1 = "snd (sql_update_state (stringify_State J st) now i d)"
  have m1: "matches ?d1 = map (\<lambda>r. if id_m r = i
                                  then r\<lparr>state := Some (stringify_State J st), updatedAt := now\<rparr>
                                  else r) (matches d)"
    by (simp add: sql_update_state_def)
  have l1: "sql_select_logs i ?d1 = sql_select_logs i d"
    by (simp add: sql_update_state_def)
  have "map id_m (matches ?d1) = map id_m (matches d)"
    unfolding m1 by (rule map_id_update)
  with assms have "i \<in> set (map id_m (matches ?d1))" by simp
  from insert_logs_present [OF this, of J] have ins: "\<And>entries. \<exists>d'. insert_logs J i entries ?d1 = Inr d'
        \<and> matches d' = matches ?d1
        \<and> sql_select_logs i d' = sql_select_logs i ?d1 @ map (stringify_LogEntry J) entries"
    by blast
  show ?thesis
  proof (cases deltalog)
    case None
    then show ?thesis using m1 l1 by (simp add: setState_body_def call_batch_def)
  next
    case (Some entries)
    show ?thesis
    proof (cases "entries = []")
      case True
      then show ?thesis using Some m1 l1 by (simp add: setState_body_def call_batch_def)
    next
      case False
      from ins [of entries] obtain d' where "insert_logs J i entries ?d1 = Inr d'"
        "matches d' = matches ?d1"
        "sql_select_logs i d' = sql_select_logs i ?d1 @ map (stringify_LogEntry J) entries"
        by blast
      then show ?thesis using Some False m1 l1 by (simp add: setState_body_def call_batch_def)
    qed
  qed
qed

lemma setState_not_applied:
  "\<not> applied J now i st deltalog s \<Longrightarrow> snd (setState J now i st deltalog s) = s"
  by (auto simp: applied_def setState_def transaction_def split: sum.splits bool.splits)

lemma setState_through:
  assumes conn: "db_open s"
    and chk: "stale_check J i st (db_file s) = Inr False"
    and present: "i \<in> set (map id_m (matches (db_file s)))"
  shows "\<exists>d'. setState J now i st deltalog s = (None, s\<lparr>db_file := d'\<rparr>)
        \<and> applied J now i st deltalog s
        \<and> matches d' = map (\<lambda>r. if id_m r = i
                                  then r\<lparr>state := Some (stringify_State J st), updatedAt := now\<rparr>
                                  else r) (matches (db_file s))
        \<and> sql_select_logs i d'
            = sql_select_logs i (db_file s)
                @ map (stringify_LogEntry J) (call_batch (now, st, deltalog))"
proof -
  from setState_body_present [OF present, of J now st deltalog]
  obtain d' where body: "setState_body J now i st deltalog (db_file s) = Inr d'"
    and m: "matches d' = map (\<lambda>r. if id_m r = i
                                  then r\<lparr>state := Some (stringify_State J st), updatedAt := now\<rparr>
                                  else r) (matches (db_file s))"
    and l: "sql_select_logs i d'
            = sql_select_logs i (db_file s)
                @ map (stringify_LogEntry J) (call_batch (now, st, deltalog))"
    by blast
  have run: "setState J now i st deltalog s = (None, s\<lparr>db_file := d'\<rparr>)"
    using conn chk body by (simp add: setState_def transaction_def)
  then have "applied J now i st deltalog s"
    using conn chk by (simp add: applied_def)
  with run m l show ?thesis by blast
qed

lemma stored_stateID_present:
  "stored_stateID J i s = Some m \<Longrightarrow> i \<in> set (map id_m (matches (db_file s)))"
  using sql_select_match_None [of i "db_file s"]
  by (auto simp: stored_stateID_def split: option.splits simp del: set_map)

lemma stale_check_stored:
  "stored_stateID J i s = Some m \<Longrightarrow> stale_check J i st (db_file s) = Inr (stateID st \<le> m)"
  by (auto simp: stored_stateID_def stale_check_def split: option.splits if_splits)

lemma setState_stale:
  assumes "db_open s" and "stored_stateID J i s = Some m" and "stateID st \<le> m"
  shows "setState J now i st deltalog s = (None, s)" and "\<not> applied J now i st deltalog s"
  using assms stale_check_stored [OF assms(2), of st]
  by (simp_all add: setState_def applied_def)

lemma setState_newer:
  assumes conn: "db_open s" and stored: "stored_stateID J i s = Some m" and newer: "m < stateID st"
    and rt: "parse_State J (stringify_State J st) = Some st" and ne: "stringify_State J st \<noteq> []"
  shows "applied J now i st deltalog s"
    and "db_open (snd (setState J now i st deltalog s))"
    and "stored_stateID J i (snd (setState J now i st deltalog s)) = Some (stateID st)"
proof -
  have chk: "stale_check J i st (db_file s) = Inr False"
    using stale_check_stored [OF stored, of st] newer by simp
  from setState_through [OF conn chk stored_stateID_present [OF stored], of now deltalog]
  obtain d' where run: "setState J now i st deltalog s = (None, s\<lparr>db_file := d'\<rparr>)"
    and app: "applied J now i st deltalog s"
    and m: "matches d' = map (\<lambda>r. if id_m r = i
                                  then r\<lparr>state := Some (stringify_State J st), updatedAt := now\<rparr>
                                  else r) (matches (db_file s))"
    by blast
  show "applied J now i st deltalog s" by (rule app)
  show "db_open (snd (setState J now i st deltalog s))" using conn run by simp
  from stored obtain row where "sql_select_match i (db_file s) = Some row"
    by (auto simp: stored_stateID_def split: option.splits)
  then have "sql_select_match i d'
      = Some (row\<lparr>state := Some (stringify_State J st), updatedAt := now\<rparr>)"
    by (simp add: sql_select_match_def m find_map_update)
  then show "stored_stateID J i (snd (setState J now i st deltalog s)) = Some (stateID st)"
    using rt ne by (simp add: run stored_stateID_def)
qed

section \<open>Sequences of calls of \<^verbatim>\<open>setState\<close>\<close>

lemma Max_insert_below:
  "finite A \<Longrightarrow> a \<in> A \<Longrightarrow> (m::int) < a \<Longrightarrow> Max (insert m A) = Max A"
  by (metis Max_ge Max_insert empty_iff less_le_not_le max.absorb2 order_trans linorder_le_cases)

lemma setState_calls_stateID:
  assumes "db_open s" and "stored_stateID J i s = Some m"
    and "\<forall>c \<in> set calls. parse_State J (stringify_State J (fst (snd c))) = Some (fst (snd c))
                        \<and> stringify_State J (fst (snd c)) \<noteq> []"
  shows "stored_stateID J i (setState_calls J i calls s)
           = Some (Max (set (m # map call_stateID (applied_calls J i calls s))))
       \<and> (applied_calls J i calls s \<noteq> [] \<longrightarrow>
            stored_stateID J i (setState_calls J i calls s)
              = Some (Max (set (map call_stateID (applied_calls J i calls s)))))"
  using assms
proof (induction calls arbitrary: s m)
  case Nil
  then show ?case by simp
next
  case (Cons c calls)
  obtain now st deltalog where c: "c = (now, st, deltalog)" by (cases c) auto
  show ?case
  proof (cases "stateID st \<le> m")
    case True
    from setState_stale [OF Cons.prems(1,2) True, of now deltalog]
    have same: "setState J now i st deltalog s = (None, s)"
      and skip: "\<not> applied J now i st deltalog s" by simp_all
    have e1: "applied_calls J i (c # calls) s = applied_calls J i calls s"
      by (simp add: c same skip)
    have e2: "setState_calls J i (c # calls) s = setState_calls J i calls s"
      by (simp add: c same)
    from Cons.prems(3) have "\<forall>c \<in> set calls.
        parse_State J (stringify_State J (fst (snd c))) = Some (fst (snd c))
        \<and> stringify_State J (fst (snd c)) \<noteq> []" by simp
    from Cons.IH [OF Cons.prems(1,2) this]
    show ?thesis unfolding e1 e2 .
  next
    case False
    then have newer: "m < stateID st" by simp
    from Cons.prems(3) have rt: "parse_State J (stringify_State J st) = Some st"
      and ne: "stringify_State J st \<noteq> []"
      and rest: "\<forall>c \<in> set calls.
        parse_State J (stringify_State J (fst (snd c))) = Some (fst (snd c))
        \<and> stringify_State J (fst (snd c)) \<noteq> []" by (simp_all add: c)
    let ?s' = "snd (setState J now i st deltalog s)"
    let ?A = "set (stateID st # map call_stateID (applied_calls J i calls ?s'))"
    note step = setState_newer [OF Cons.prems(1,2) newer rt ne, of now deltalog]
    from Cons.IH [OF step(2) step(3) rest]
    have ih: "stored_stateID J i (setState_calls J i calls ?s') = Some (Max ?A)"
      by blast
    have e1: "applied_calls J i (c # calls) s = c # applied_calls J i calls ?s'"
      using step(1) by (simp add: c)
    have e2: "setState_calls J i (c # calls) s = setState_calls J i calls ?s'"
      by (simp add: c)
    have e3: "set (m # map call_stateID (c # applied_calls J i calls ?s')) = insert m ?A"
      by (simp add: c call_stateID_def)
    have e4: "set (map call_stateID (c # applied_calls J i calls ?s')) = ?A"
      by (simp add: c call_stateID_def)
    have e5: "Max (insert m ?A) = Max ?A"
      by (rule Max_insert_below [of ?A "stateID st"]) (use newer in simp_all)
    show ?thesis unfolding e1 e2 e3 e4 e5 using ih by blast
  qed
qed

lemma setState_open: "db_open (snd (setState J now i st deltalog s)) = db_open s"
  by (auto simp: setState_def transaction_def split: sum.splits bool.splits)

lemma setState_calls_open: "db_open (setState_calls J i calls s) = db_open s"
proof (induction calls arbitrary: s)
  case Nil
  show ?case by simp
next
  case (Cons c calls)
  obtain now st deltalog where c: "c = (now, st, deltalog)" by (cases c) auto
  from Cons.IH [of "snd (setState J now i st deltalog s)"]
  show ?case by (simp add: c setState_open)
qed

lemma fetch_only_state:
  assumes "db_open s" and "stored_stateID J i s = Some n"
  shows "\<exists>st'. fetch J i only_state s
                 = Inr \<lparr>ff_state = Some st', ff_metadata = None, ff_initialState = None,
                        ff_log = None\<rparr>
              \<and> stateID st' = n"
proof -
  from assms(2) obtain row t st' where row: "sql_select_match i (db_file s) = Some row"
    and t: "state row = Some t" "t \<noteq> []" and p: "parse_State J t = Some st'"
    and n: "stateID st' = n"
    by (auto simp: stored_stateID_def split: option.splits if_splits)
  have "fetch J i only_state s
                 = Inr \<lparr>ff_state = Some st', ff_metadata = None, ff_initialState = None,
                        ff_log = None\<rparr>"
    using assms(1) row t p
    by (simp add: fetch_def only_state_def truthy_bool_def parse_column_def)
  with n show ?thesis by blast
qed

lemma parse_rows_map:
  "\<forall>e \<in> set es. p (f e) = Some e \<Longrightarrow> parse_rows p (map f es) = Inr es"
  by (induction es) auto

lemma parse_rows_append:
  "parse_rows p xs = Inr a \<Longrightarrow> \<forall>e \<in> set es. p (f e) = Some e \<Longrightarrow>
     parse_rows p (xs @ map f es) = Inr (a @ es)"
  by (induction xs arbitrary: a) (auto simp: parse_rows_map split: option.splits sum.splits)

lemma fetch_only_log:
  assumes "db_open s" and "i \<in> set (map id_m (matches (db_file s)))"
    and "parse_rows (parse_LogEntry J) (sql_select_logs i (db_file s)) = Inr es"
  shows "fetch J i only_log s
           = Inr \<lparr>ff_state = None, ff_metadata = None, ff_initialState = None, ff_log = Some es\<rparr>"
proof -
  from assms(2) obtain row where "sql_select_match i (db_file s) = Some row"
    using sql_select_match_None [of i "db_file s"] by (cases "sql_select_match i (db_file s)") auto
  with assms(1,3) show ?thesis
    by (simp add: fetch_def only_log_def truthy_bool_def)
qed

lemma setState_calls_logs:
  assumes "db_open s" and "i \<in> set (map id_m (matches (db_file s)))"
    and "parse_rows (parse_LogEntry J) (sql_select_logs i (db_file s)) = Inr old"
    and "\<forall>c \<in> set calls. \<forall>e \<in> set (call_batch c).
           parse_LogEntry J (stringify_LogEntry J e) = Some e"
  shows "i \<in> set (map id_m (matches (db_file (setState_calls J i calls s))))
       \<and> parse_rows (parse_LogEntry J) (sql_select_logs i (db_file (setState_calls J i calls s)))
           = Inr (old @ concat (map call_batch (applied_calls J i calls s)))"
  using assms
proof (induction calls arbitrary: s old)
  case Nil
  then show ?case by simp
next
  case (Cons c calls)
  obtain now st deltalog where c: "c = (now, st, deltalog)" by (cases c) auto
  from Cons.prems(4) have here: "\<forall>e \<in> set (call_batch c).
           parse_LogEntry J (stringify_LogEntry J e) = Some e"
    and rest: "\<forall>c \<in> set calls. \<forall>e \<in> set (call_batch c).
           parse_LogEntry J (stringify_LogEntry J e) = Some e" by simp_all
  let ?s' = "snd (setState J now i st deltalog s)"
  have e2: "setState_calls J i (c # calls) s = setState_calls J i calls ?s'"
    by (simp add: c)
  show ?case
  proof (cases "applied J now i st deltalog s")
    case False
    then have same: "?s' = s" by (rule setState_not_applied)
    have e1: "applied_calls J i (c # calls) s = applied_calls J i calls s"
      using False by (simp add: c same)
    from Cons.IH [OF Cons.prems(1,2,3) rest]
    show ?thesis unfolding e1 e2 same .
  next
    case True
    then have chk: "stale_check J i st (db_file s) = Inr False"
      by (simp add: applied_def)
    from setState_through [OF Cons.prems(1) chk Cons.prems(2), of now deltalog]
    obtain d' where run: "setState J now i st deltalog s = (None, s\<lparr>db_file := d'\<rparr>)"
      and m: "matches d' = map (\<lambda>r. if id_m r = i
                                  then r\<lparr>state := Some (stringify_State J st), updatedAt := now\<rparr>
                                  else r) (matches (db_file s))"
      and l: "sql_select_logs i d'
            = sql_select_logs i (db_file s) @ map (stringify_LogEntry J) (call_batch c)"
      unfolding c by blast
    have s': "?s' = s\<lparr>db_file := d'\<rparr>" by (simp add: run)
    have open': "db_open ?s'" using Cons.prems(1) by (simp add: s')
    have "map id_m (matches d') = map id_m (matches (db_file s))"
      unfolding m by (rule map_id_update)
    with Cons.prems(2) have present': "i \<in> set (map id_m (matches (db_file ?s')))"
      by (simp add: s')
    have logs': "parse_rows (parse_LogEntry J) (sql_select_logs i (db_file ?s'))
                   = Inr (old @ call_batch c)"
      using parse_rows_append [OF Cons.prems(3) here] by (simp add: s' l)
    have e1: "applied_calls J i (c # calls) s = c # applied_calls J i calls ?s'"
      using True by (simp add: c)
    from Cons.IH [OF open' present' logs' rest]
    show ?thesis unfolding e1 e2 by simp
  qed
qed

lemma sample_state_roundtrip_any:
  "0 \<le> n \<Longrightarrow>
     parse_State sample_JSON (stringify_State sample_JSON (sample_state n)) = Some (sample_state n)
   \<and> stringify_State sample_JSON (sample_state n) \<noteq> []"
  by (simp add: sample_JSON_def sample_state_def takeWhile_append dropWhile_append)

lemma sample_stored: "stored_stateID sample_JSON ''A'' sample_store = Some 2"
  by (simp add: stored_stateID_def sql_select_match_def sample_store_def sample_db_def
        sample_JSON_def)

lemma sample_applied:
  "applied_calls sample_JSON ''A'' sample_calls sample_store
     = [(50, sample_state 5, Some [''a'', ''b'']), (52, sample_state 7, Some [''c''])]"
  by (simp add: sample_calls_def applied_def setState_def stale_check_def sql_select_match_def
        sample_store_def sample_db_def sample_JSON_def sample_state_def transaction_def
        setState_body_def sql_update_state_def sql_insert_log_def next_log_id_def
        eval_nat_numeral)

lemma sample_old_log:
  "parse_rows (parse_LogEntry sample_JSON) (sql_select_logs ''A'' (db_file sample_store)) = Inr [''x'']"
  by (simp add: sql_select_logs_def sample_store_def sample_db_def sample_JSON_def)

lemma sample_calls_state_roundtrip:
  "\<forall>c \<in> set sample_calls.
     parse_State sample_JSON (stringify_State sample_JSON (fst (snd c))) = Some (fst (snd c))
     \<and> stringify_State sample_JSON (fst (snd c)) \<noteq> []"
  by (simp add: sample_calls_def sample_state_roundtrip_any)

lemma sample_calls_log_roundtrip:
  "\<forall>c \<in> set sample_calls. \<forall>e \<in> set (call_batch c).
     parse_LogEntry sample_JSON (stringify_LogEntry sample_JSON e) = Some e"
  by (simp add: sample_JSON_def)

text \<open>
  C2. On a connected store, for a match whose stored state is there and can be read, with
  \<^verbatim>\<open>_stateID\<close> \<open>m\<close>: a call of \<^verbatim>\<open>setState\<close> with a state whose \<^verbatim>\<open>_stateID\<close> is at most
  \<open>m\<close> throws nothing and returns the store as it was, rows, timestamps, metadata and
  logs, whatever log batch comes with it. And after any sequence of calls whose states
  \<^verbatim>\<open>JSON.parse\<close> reads back from what \<^verbatim>\<open>JSON.stringify\<close> wrote, the stored
  \<^verbatim>\<open>_stateID\<close>, which is also the one \<^verbatim>\<open>fetch\<close> returns, is the largest among \<open>m\<close> and
  the calls that were applied; it is the largest among the applied calls when there is one.
\<close>

theorem stale_setState_is_noop:
  assumes conn: "db_open s" and stored: "stored_stateID J i s = Some m"
  shows "(stateID st \<le> m \<longrightarrow>
            setState J now i st deltalog s = (None, s) \<and> \<not> applied J now i st deltalog s)
       \<and> ((\<forall>c \<in> set calls. parse_State J (stringify_State J (fst (snd c))) = Some (fst (snd c))
                            \<and> stringify_State J (fst (snd c)) \<noteq> []) \<longrightarrow>
            stored_stateID J i (setState_calls J i calls s)
              = Some (Max (set (m # map call_stateID (applied_calls J i calls s))))
          \<and> (applied_calls J i calls s \<noteq> [] \<longrightarrow>
               stored_stateID J i (setState_calls J i calls s)
                 = Some (Max (set (map call_stateID (applied_calls J i calls s)))))
          \<and> (\<exists>st'. fetch J i only_state (setState_calls J i calls s)
                       = Inr \<lparr>ff_state = Some st', ff_metadata = None, ff_initialState = None,
                              ff_log = None\<rparr>
                    \<and> stateID st' = Max (set (m # map call_stateID (applied_calls J i calls s)))))"
proof (intro conjI impI)
  assume "stateID st \<le> m"
  from setState_stale [OF conn stored this]
  show "setState J now i st deltalog s = (None, s)" and "\<not> applied J now i st deltalog s"
    by simp_all
next
  assume rt: "\<forall>c \<in> set calls. parse_State J (stringify_State J (fst (snd c))) = Some (fst (snd c))
                            \<and> stringify_State J (fst (snd c)) \<noteq> []"
  note seq = setState_calls_stateID [OF conn stored rt]
  from seq show a: "stored_stateID J i (setState_calls J i calls s)
              = Some (Max (set (m # map call_stateID (applied_calls J i calls s))))"
    by (rule conjunct1)
  from seq show "stored_stateID J i (setState_calls J i calls s)
                 = Some (Max (set (map call_stateID (applied_calls J i calls s))))"
    if "applied_calls J i calls s \<noteq> []"
    using that by blast
  have "db_open (setState_calls J i calls s)"
    using conn by (simp add: setState_calls_open)
  from fetch_only_state [OF this a]
  show "\<exists>st'. fetch J i only_state (setState_calls J i calls s)
                       = Inr \<lparr>ff_state = Some st', ff_metadata = None, ff_initialState = None,
                              ff_log = None\<rparr>
                    \<and> stateID st' = Max (set (m # map call_stateID (applied_calls J i calls s)))" .
qed

theorem stale_setState_is_noop_witness:
  "db_open sample_store
 \<and> stored_stateID sample_JSON ''A'' sample_store = Some 2
 \<and> stateID (sample_state 1) \<le> 2
 \<and> setState sample_JSON 60 ''A'' (sample_state 1) (Some [''z'']) sample_store
      = (None, sample_store)
 \<and> applied_calls sample_JSON ''A'' sample_calls sample_store
      = [(50, sample_state 5, Some [''a'', ''b'']), (52, sample_state 7, Some [''c''])]
 \<and> stored_stateID sample_JSON ''A'' (setState_calls sample_JSON ''A'' sample_calls sample_store)
      = Some 7"
proof -
  have le: "stateID (sample_state 1) \<le> 2" by (simp add: sample_state_def)
  note inst = stale_setState_is_noop [OF sample_open sample_stored,
      where st = "sample_state 1" and calls = sample_calls and now = 60
        and deltalog = "Some [''z'']"]
  from inst le
  have a: "setState sample_JSON 60 ''A'' (sample_state 1) (Some [''z'']) sample_store
             = (None, sample_store)"
    by blast
  from inst sample_calls_state_roundtrip
  have "stored_stateID sample_JSON ''A'' (setState_calls sample_JSON ''A'' sample_calls sample_store)
          = Some (Max (set (2 # map call_stateID
                                 (applied_calls sample_JSON ''A'' sample_calls sample_store))))"
    by blast
  then have b: "stored_stateID sample_JSON ''A''
                  (setState_calls sample_JSON ''A'' sample_calls sample_store) = Some 7"
    by (simp add: sample_applied call_stateID_def sample_state_def)
  from sample_open sample_stored le a sample_applied b show ?thesis by blast
qed

text \<open>
  C4. On a connected store, for a match that exists and whose log so far can be read, and
  log entries that \<^verbatim>\<open>JSON.parse\<close> reads back from what \<^verbatim>\<open>JSON.stringify\<close> wrote: after
  any sequence of calls of \<^verbatim>\<open>setState\<close> on the match, fetching it with the log enabled
  returns the log so far followed by the batches of the applied calls, in the order of the
  calls, each batch in its own order.
\<close>

theorem log_read_back_in_call_and_batch_order:
  assumes "db_open s" and "i \<in> set (map id_m (matches (db_file s)))"
    and "parse_rows (parse_LogEntry J) (sql_select_logs i (db_file s)) = Inr old"
    and "\<forall>c \<in> set calls. \<forall>e \<in> set (call_batch c).
           parse_LogEntry J (stringify_LogEntry J e) = Some e"
  shows "fetch J i only_log (setState_calls J i calls s)
           = Inr \<lparr>ff_state = None, ff_metadata = None, ff_initialState = None,
                  ff_log = Some (old @ concat (map call_batch (applied_calls J i calls s)))\<rparr>"
proof -
  have "db_open (setState_calls J i calls s)"
    using assms(1) by (simp add: setState_calls_open)
  moreover note setState_calls_logs [OF assms]
  ultimately show ?thesis by (blast intro: fetch_only_log)
qed

theorem log_read_back_in_call_and_batch_order_witness:
  "db_open sample_store
 \<and> ''A'' \<in> set (map id_m (matches (db_file sample_store)))
 \<and> parse_rows (parse_LogEntry sample_JSON) (sql_select_logs ''A'' (db_file sample_store))
      = Inr [''x'']
 \<and> fetch sample_JSON ''A'' only_log (setState_calls sample_JSON ''A'' sample_calls sample_store)
      = Inr \<lparr>ff_state = None, ff_metadata = None, ff_initialState = None,
             ff_log = Some [''x'', ''a'', ''b'', ''c'']\<rparr>"
proof -
  from log_read_back_in_call_and_batch_order
    [OF sample_open sample_A_present sample_old_log sample_calls_log_roundtrip]
  have "fetch sample_JSON ''A'' only_log (setState_calls sample_JSON ''A'' sample_calls sample_store)
      = Inr \<lparr>ff_state = None, ff_metadata = None, ff_initialState = None,
             ff_log = Some [''x'', ''a'', ''b'', ''c'']\<rparr>"
    by (simp add: sample_applied call_batch_def)
  with sample_open sample_A_present sample_old_log show ?thesis by blast
qed

section \<open>The stale check and a write from another connection\<close>

lemma setState_check_then_write:
  "setState J now i st deltalog s =
     (if \<not> db_open s then (Some NotConnected, s)
      else (case stale_check J i st (db_file s) of
              Inl e \<Rightarrow> (Some e, s)
            | Inr True \<Rightarrow> (None, s)
            | Inr False \<Rightarrow> setState_write J now i st deltalog s))"
  by (simp add: setState_def setState_write_def split: sum.splits bool.splits)

lemma setState_write_present:
  assumes stored: "stored_stateID J i s = Some m"
    and rt: "parse_State J (stringify_State J st) = Some st" and ne: "stringify_State J st \<noteq> []"
  shows "fst (setState_write J now i st deltalog s) = None"
    and "db_open (snd (setState_write J now i st deltalog s)) = db_open s"
    and "stored_stateID J i (snd (setState_write J now i st deltalog s)) = Some (stateID st)"
    and "sql_select_logs i (db_file (snd (setState_write J now i st deltalog s)))
           = sql_select_logs i (db_file s)
               @ map (stringify_LogEntry J) (call_batch (now, st, deltalog))"
proof -
  from setState_body_present [OF stored_stateID_present [OF stored], of J now st deltalog]
  obtain d' where body: "setState_body J now i st deltalog (db_file s) = Inr d'"
    and m: "matches d' = map (\<lambda>r. if id_m r = i
                                  then r\<lparr>state := Some (stringify_State J st), updatedAt := now\<rparr>
                                  else r) (matches (db_file s))"
    and l: "sql_select_logs i d'
            = sql_select_logs i (db_file s)
                @ map (stringify_LogEntry J) (call_batch (now, st, deltalog))"
    by blast
  have run: "setState_write J now i st deltalog s = (None, s\<lparr>db_file := d'\<rparr>)"
    using body by (simp add: setState_write_def transaction_def)
  show "fst (setState_write J now i st deltalog s) = None" by (simp add: run)
  show "db_open (snd (setState_write J now i st deltalog s)) = db_open s" by (simp add: run)
  show "sql_select_logs i (db_file (snd (setState_write J now i st deltalog s)))
           = sql_select_logs i (db_file s)
               @ map (stringify_LogEntry J) (call_batch (now, st, deltalog))"
    by (simp add: run l)
  from stored obtain row where "sql_select_match i (db_file s) = Some row"
    by (auto simp: stored_stateID_def split: option.splits)
  then have "sql_select_match i d'
      = Some (row\<lparr>state := Some (stringify_State J st), updatedAt := now\<rparr>)"
    by (simp add: sql_select_match_def m find_map_update)
  then show "stored_stateID J i (snd (setState_write J now i st deltalog s)) = Some (stateID st)"
    using rt ne by (simp add: run stored_stateID_def)
qed

lemma sample_A_log: "sql_select_logs ''A'' (db_file sample_store) = [''ex'']"
  by (simp add: sql_select_logs_def sample_store_def sample_db_def)

text \<open>
  C3. The claim does not hold of the code: \<^verbatim>\<open>setState\<close> makes its stale check (lines 158
  to 167) before it enters \<^verbatim>\<open>db.transaction\<close> (lines 172 to 190), not inside it. Take a
  match whose stored \<^verbatim>\<open>_stateID\<close> is \<open>m\<close> and two writers with \<open>m < id1 < id2\<close>, on two
  connections to the same file. Writer 1's check, made on the store as it is, lets writer 1
  through. Writer 2's whole call then runs, is applied and stores \<open>id2\<close>. Writer 1's
  transaction, run after that, commits: it stores \<open>id1\<close>, below \<open>id2\<close>, and appends its
  log batch behind writer 2's. Both writers held their write for the newer one, and both
  were applied, out of order. Had writer 1's check been made at the time of its write, its
  call would have changed nothing.
\<close>

theorem stale_check_outside_transaction:
  assumes conn: "db_open s" and stored: "stored_stateID J i s = Some m"
    and lt1: "m < stateID stA" and lt2: "stateID stA < stateID stB"
    and rt1: "parse_State J (stringify_State J stA) = Some stA"
    and ne1: "stringify_State J stA \<noteq> []"
    and rt2: "parse_State J (stringify_State J stB) = Some stB"
    and ne2: "stringify_State J stB \<noteq> []"
  shows "stale_check J i stA (db_file s) = Inr False
       \<and> applied J nowB i stB dlB s
       \<and> stored_stateID J i (snd (setState J nowB i stB dlB s)) = Some (stateID stB)
       \<and> fst (setState_write J nowA i stA dlA (snd (setState J nowB i stB dlB s))) = None
       \<and> stored_stateID J i
            (snd (setState_write J nowA i stA dlA (snd (setState J nowB i stB dlB s))))
           = Some (stateID stA)
       \<and> sql_select_logs i
            (db_file (snd (setState_write J nowA i stA dlA (snd (setState J nowB i stB dlB s)))))
           = sql_select_logs i (db_file s)
               @ map (stringify_LogEntry J) (call_batch (nowB, stB, dlB))
               @ map (stringify_LogEntry J) (call_batch (nowA, stA, dlA))
       \<and> setState J nowA i stA dlA (snd (setState J nowB i stB dlB s))
           = (None, snd (setState J nowB i stB dlB s))"
proof -
  let ?s2 = "snd (setState J nowB i stB dlB s)"
  have chk1: "stale_check J i stA (db_file s) = Inr False"
    using stale_check_stored [OF stored, of stA] lt1 by simp
  from lt1 lt2 have lt: "m < stateID stB" by simp
  note w2 = setState_newer [OF conn stored lt rt2 ne2, of nowB dlB]
  have chk2: "stale_check J i stB (db_file s) = Inr False"
    using stale_check_stored [OF stored, of stB] lt by simp
  have run2: "setState J nowB i stB dlB s = setState_write J nowB i stB dlB s"
    using conn chk2 by (simp add: setState_check_then_write)
  have log2: "sql_select_logs i (db_file ?s2)
                = sql_select_logs i (db_file s)
                    @ map (stringify_LogEntry J) (call_batch (nowB, stB, dlB))"
    unfolding run2 by (rule setState_write_present(4) [OF stored rt2 ne2])
  note w1 = setState_write_present [OF w2(3) rt1 ne1, of nowA dlA]
  have late: "setState J nowA i stA dlA ?s2 = (None, ?s2)"
    using setState_stale(1) [OF w2(2) w2(3), of stA nowA dlA] lt2 by simp
  show ?thesis
    using chk1 w2(1) w2(3) w1(1) w1(3) w1(4) log2 late by simp
qed

theorem stale_check_outside_transaction_witness:
  "db_open sample_store
 \<and> stored_stateID sample_JSON ''A'' sample_store = Some 2
 \<and> 2 < stateID (sample_state 3)
 \<and> stateID (sample_state 3) < stateID (sample_state 5)
 \<and> stale_check sample_JSON ''A'' (sample_state 3) (db_file sample_store) = Inr False
 \<and> stored_stateID sample_JSON ''A''
      (snd (setState sample_JSON 51 ''A'' (sample_state 5) (Some [''w2'']) sample_store))
     = Some 5
 \<and> stored_stateID sample_JSON ''A''
      (snd (setState_write sample_JSON 52 ''A'' (sample_state 3) (Some [''w1''])
             (snd (setState sample_JSON 51 ''A'' (sample_state 5) (Some [''w2'']) sample_store))))
     = Some 3
 \<and> sql_select_logs ''A''
      (db_file (snd (setState_write sample_JSON 52 ''A'' (sample_state 3) (Some [''w1''])
             (snd (setState sample_JSON 51 ''A'' (sample_state 5) (Some [''w2''])
                     sample_store)))))
     = [''ex'', ''ew2'', ''ew1'']
 \<and> setState sample_JSON 52 ''A'' (sample_state 3) (Some [''w1''])
      (snd (setState sample_JSON 51 ''A'' (sample_state 5) (Some [''w2'']) sample_store))
     = (None, snd (setState sample_JSON 51 ''A'' (sample_state 5) (Some [''w2'']) sample_store))"
proof -
  have id3: "stateID (sample_state 3) = 3" and id5: "stateID (sample_state 5) = 5"
    by (simp_all add: sample_state_def)
  have lt1: "2 < stateID (sample_state 3)"
    and lt2: "stateID (sample_state 3) < stateID (sample_state 5)"
    by (simp_all add: sample_state_def)
  have rt3: "parse_State sample_JSON (stringify_State sample_JSON (sample_state 3))
               = Some (sample_state 3)"
    and ne3: "stringify_State sample_JSON (sample_state 3) \<noteq> []"
    and rt5: "parse_State sample_JSON (stringify_State sample_JSON (sample_state 5))
               = Some (sample_state 5)"
    and ne5: "stringify_State sample_JSON (sample_state 5) \<noteq> []"
    using sample_state_roundtrip_any [of 3] sample_state_roundtrip_any [of 5] by simp_all
  have b2: "map (stringify_LogEntry sample_JSON) (call_batch (51, sample_state 5, Some [''w2'']))
              = [''ew2'']"
    and b1: "map (stringify_LogEntry sample_JSON) (call_batch (52, sample_state 3, Some [''w1'']))
              = [''ew1'']"
    by (simp_all add: call_batch_def sample_JSON_def)
  note inst = stale_check_outside_transaction
    [OF sample_open sample_stored lt1 lt2 rt3 ne3 rt5 ne5,
     where nowA = 52 and dlA = "Some [''w1'']" and nowB = 51 and dlB = "Some [''w2'']"]
  from inst [unfolded id3 id5 b1 b2 sample_A_log] sample_open sample_stored lt1 lt2
  show ?thesis by simp
qed

section \<open>The operations keep the database consistent\<close>

text \<open>
  Uniqueness of \<^verbatim>\<open>matches.id\<close> and the foreign key of \<^verbatim>\<open>logs.matchId\<close> hold of the
  empty database and survive every operation of the store, so they hold of every database
  that only the store has written.
\<close>

lemma consistent_empty: "consistent empty_database"
  by (simp add: consistent_def primary_key_def referential_integrity_def empty_database_def)

lemma sql_insert_match_consistent:
  "consistent d \<Longrightarrow> sql_insert_match row d = Inr d' \<Longrightarrow> consistent d'"
  by (auto simp: consistent_def primary_key_def referential_integrity_def sql_insert_match_def
           split: if_splits)

lemma sql_insert_log_consistent:
  "consistent d \<Longrightarrow> sql_insert_log i text d = Inr d' \<Longrightarrow> consistent d'"
  by (auto simp: consistent_def primary_key_def referential_integrity_def sql_insert_log_def
           split: if_splits)

lemma insert_logs_consistent:
  "consistent d \<Longrightarrow> insert_logs J i entries d = Inr d' \<Longrightarrow> consistent d'"
proof (induction entries arbitrary: d)
  case Nil
  then show ?case by simp
next
  case (Cons e es)
  from Cons.prems(2) obtain d1 where d1: "sql_insert_log i (stringify_LogEntry J e) d = Inr d1"
    and rest: "insert_logs J i es d1 = Inr d'"
    by (auto split: sum.splits)
  from sql_insert_log_consistent [OF Cons.prems(1) d1] rest show ?case by (rule Cons.IH)
qed

lemma consistent_same_ids:
  "map id_m (matches d') = map id_m (matches d) \<Longrightarrow> logs d' = logs d \<Longrightarrow>
     consistent d' = consistent d"
  by (simp add: consistent_def primary_key_def referential_integrity_def del: set_map)

lemma sql_update_state_consistent:
  "consistent d \<Longrightarrow> consistent (snd (sql_update_state text now i d))"
proof -
  have "matches (snd (sql_update_state text now i d))
          = map (\<lambda>r. if id_m r = i then r\<lparr>state := Some text, updatedAt := now\<rparr> else r)
                (matches d)"
    by (simp add: sql_update_state_def)
  then have ids: "map id_m (matches (snd (sql_update_state text now i d))) = map id_m (matches d)"
    by (simp only: map_id_update)
  have lgs: "logs (snd (sql_update_state text now i d)) = logs d"
    by (simp add: sql_update_state_def)
  assume "consistent d"
  with consistent_same_ids [OF ids lgs]
  show "consistent (snd (sql_update_state text now i d))" by blast
qed

lemma map_id_update_metadata:
  "map id_m (map (\<lambda>r. if id_m r = i then r\<lparr>metadata := x, updatedAt := n\<rparr> else r) rows)
     = map id_m rows"
  by (induction rows) auto

lemma sql_update_metadata_consistent:
  "consistent d \<Longrightarrow> consistent (snd (sql_update_metadata text now i d))"
proof -
  have "matches (snd (sql_update_metadata text now i d))
          = map (\<lambda>r. if id_m r = i then r\<lparr>metadata := Some text, updatedAt := now\<rparr> else r)
                (matches d)"
    by (simp add: sql_update_metadata_def)
  then have ids: "map id_m (matches (snd (sql_update_metadata text now i d))) = map id_m (matches d)"
    by (simp only: map_id_update_metadata)
  have lgs: "logs (snd (sql_update_metadata text now i d)) = logs d"
    by (simp add: sql_update_metadata_def)
  assume "consistent d"
  with consistent_same_ids [OF ids lgs]
  show "consistent (snd (sql_update_metadata text now i d))" by blast
qed

lemma sql_delete_match_consistent:
  "consistent d \<Longrightarrow> consistent (snd (sql_delete_match i d))"
  by (auto simp: consistent_def primary_key_def referential_integrity_def sql_delete_match_def
        distinct_map_filter)

lemma setState_body_consistent:
  "consistent d \<Longrightarrow> setState_body J now i st deltalog d = Inr d' \<Longrightarrow> consistent d'"
  by (auto simp: setState_body_def split: option.splits if_splits
           intro: sql_update_state_consistent insert_logs_consistent)

lemma operations_keep_consistent:
  assumes "consistent (db_file s)"
  shows "consistent (db_file (snd (createMatch J now i opts s)))"
    and "consistent (db_file (snd (setState J now i st deltalog s)))"
    and "consistent (db_file (snd (setMetadata J now i md s)))"
    and "consistent (db_file (snd (wipe i s)))"
proof -
  show "consistent (db_file (snd (createMatch J now i opts s)))"
    using assms
    by (auto simp: createMatch_def split: sum.splits dest: sql_insert_match_consistent)
  show "consistent (db_file (snd (setState J now i st deltalog s)))"
    using assms
    by (auto simp: setState_def transaction_def split: sum.splits bool.splits
             dest: setState_body_consistent)
  show "consistent (db_file (snd (setMetadata J now i md s)))"
    using assms by (simp add: setMetadata_def sql_update_metadata_consistent)
  show "consistent (db_file (snd (wipe i s)))"
    using assms by (simp add: wipe_def sql_delete_match_consistent)
qed

end
